theory Spec2Isabelle
  imports Main "HOL-Library.AList" "HOL-Library.Char_ord" "HOL-Library.List_Lexorder"
begin

section \<open>Go types as seen through package reflect\<close>

text \<open>
  The package works on \<^verbatim>\<open>reflect.Type\<close> and \<^verbatim>\<open>reflect.Value\<close>. A type is a
  finite tree: the predeclared types bool, int and string, the empty interface, slice, map and
  pointer types, struct literals, and defined types (\<^verbatim>\<open>type Name underlying\<close>). A defined type
  carries the number of its declaration, since two declarations give two different types even
  under one name, and the \<^verbatim>\<open>TStructSet\<close> method declared on it, if any.
  A struct field has the parts of \<^verbatim>\<open>reflect.StructField\<close> the code reads: Name, PkgPath
  (empty exactly for an exported field), the value of the \<^verbatim>\<open>tstruct\<close> key of its tag and
  Type. Self-referential types (\<^verbatim>\<open>type T struct { Kids []T }\<close>) are outside this universe.
\<close>

datatype recv = PtrRecv | ValRecv

datatype hook = Hook (hrecv: recv) (hnumOut: nat)

datatype rtype =
    TBool
  | TInt
  | TString
  | TAny
  | TSlice rtype
  | TMap rtype rtype
  | TPtr rtype
  | TStruct "sfield list"
  | TDefined nat string rtype "hook option"
and sfield = SField (fname: string) (fpkgpath: string) (ftag: string) (ftype: rtype)

datatype kind = KBool | KInt | KString | KInterface | KSlice | KMap | KPointer | KStruct

fun underlying :: "rtype \<Rightarrow> rtype" where
  "underlying (TDefined _ _ u _) = underlying u"
| "underlying t = t"

fun Kind :: "rtype \<Rightarrow> kind" where
  "Kind TBool = KBool"
| "Kind TInt = KInt"
| "Kind TString = KString"
| "Kind TAny = KInterface"
| "Kind (TSlice _) = KSlice"
| "Kind (TMap _ _) = KMap"
| "Kind (TPtr _) = KPointer"
| "Kind (TStruct _) = KStruct"
| "Kind (TDefined _ _ u _) = Kind u"

text \<open>\<^verbatim>\<open>Type.Name()\<close>: the name of a defined or predeclared type, empty for a type literal.\<close>

fun tname :: "rtype \<Rightarrow> string" where
  "tname (TDefined _ n _ _) = n"
| "tname TBool = ''bool''"
| "tname TInt = ''int''"
| "tname TString = ''string''"
| "tname _ = ''''"

fun hasName :: "rtype \<Rightarrow> bool" where
  "hasName (TDefined _ _ _ _) = True"
| "hasName TBool = True"
| "hasName TInt = True"
| "hasName TString = True"
| "hasName _ = False"

text \<open>\<^verbatim>\<open>Type.Elem()\<close> and \<^verbatim>\<open>Type.Key()\<close>, on the kinds the code calls them for.\<close>

definition elemT :: "rtype \<Rightarrow> rtype" where
  "elemT t = (case underlying t of TSlice e \<Rightarrow> e | TMap _ e \<Rightarrow> e | TPtr e \<Rightarrow> e | _ \<Rightarrow> t)"

definition keyT :: "rtype \<Rightarrow> rtype" where
  "keyT t = (case underlying t of TMap k _ \<Rightarrow> k | _ \<Rightarrow> t)"

definition fields :: "rtype \<Rightarrow> sfield list" where
  "fields t = (case underlying t of TStruct fs \<Rightarrow> fs | _ \<Rightarrow> [])"

definition IsExported :: "sfield \<Rightarrow> bool" where
  "IsExported f = (fpkgpath f = '''')"

text \<open>
  The method set of \<^verbatim>\<open>*T\<close> holds the methods declared on \<^verbatim>\<open>T\<close> with either receiver,
  the method set of \<^verbatim>\<open>T\<close> those with a value receiver. Pointer and interface types have no
  declared methods, and the pointer to one has none.
\<close>

definition ptrMethod :: "rtype \<Rightarrow> hook option" where
  "ptrMethod t = (case t of
      TDefined _ _ _ h \<Rightarrow> (if Kind t = KPointer \<or> Kind t = KInterface then None else h)
    | _ \<Rightarrow> None)"

definition valMethod :: "rtype \<Rightarrow> hook option" where
  "valMethod t = (case ptrMethod t of
      Some h \<Rightarrow> (if hrecv h = ValRecv then Some h else None)
    | None \<Rightarrow> None)"

text \<open>
  Struct tags are ignored by conversion inside type literals, never inside a defined type.
\<close>

fun untag :: "rtype \<Rightarrow> rtype" and untagField :: "sfield \<Rightarrow> sfield" where
  "untag (TSlice e) = TSlice (untag e)"
| "untag (TMap k e) = TMap (untag k) (untag e)"
| "untag (TPtr e) = TPtr (untag e)"
| "untag (TStruct fs) = TStruct (map untagField fs)"
| "untag t = t"
| "untagField (SField n p g t) = SField n p '''' (untag t)"

definition identicalUnderlying :: "rtype \<Rightarrow> rtype \<Rightarrow> bool" where
  "identicalUnderlying t s = (untag (underlying t) = untag (underlying s))"

text \<open>\<^verbatim>\<open>Type.AssignableTo\<close>: directly assignable, or the target is an (empty) interface.\<close>

definition directlyAssignable :: "rtype \<Rightarrow> rtype \<Rightarrow> bool" where
  "directlyAssignable t v =
     (t = v \<or> (\<not> (hasName t \<and> hasName v) \<and> Kind t = Kind v \<and> underlying t = underlying v))"

definition AssignableTo :: "rtype \<Rightarrow> rtype \<Rightarrow> bool" where
  "AssignableTo v t = (directlyAssignable t v \<or> Kind t = KInterface)"

section \<open>Values\<close>

text \<open>
  A value carries its dynamic type. Slices, maps and pointers may be nil (\<open>None\<close>); a map is
  an association list with distinct keys, whose order is an artefact of the model. \<open>VNil\<close> is
  the content of an interface holding nothing. No arithmetic is done on integers, so \<open>int\<close>
  stands for Go's \<^verbatim>\<open>int\<close>.
\<close>

datatype val =
    VBool rtype bool
  | VInt rtype int
  | VString rtype string
  | VSlice rtype "val list option"
  | VMap rtype "(val \<times> val) list option"
  | VStruct rtype "val list"
  | VPtr rtype "val option"
  | VNil

text \<open>
  A \<^verbatim>\<open>reflect.Value\<close>: the zero Value, or a static type with the content. The static type
  is the dynamic one unless it is an interface type.
\<close>

datatype rvalue = Invalid | RV rtype val

datatype error =
    NilBase
  | NonStruct rtype
  | AnonymousStruct rtype
  | ConflictCtor string
  | ConflictSetter string
  | HookReturnsValues string string
  | HookValueReceiver string string

datatype panic =
    RequiredMissing string
  | OddArgs string nat
  | WrongNumArgs string
  | ReflectPanic

text \<open>The outcome of a call: a result, a returned \<^verbatim>\<open>error\<close>, or a panic.\<close>

datatype 'a res = Ok 'a | Err error | Panic panic

fun bind :: "'a res \<Rightarrow> ('a \<Rightarrow> 'b res) \<Rightarrow> 'b res" where
  "bind (Ok x) f = f x"
| "bind (Err e) f = Err e"
| "bind (Panic p) f = Panic p"

fun typeOf :: "val \<Rightarrow> rtype" where
  "typeOf (VBool t _) = t"
| "typeOf (VInt t _) = t"
| "typeOf (VString t _) = t"
| "typeOf (VSlice t _) = t"
| "typeOf (VMap t _) = t"
| "typeOf (VStruct t _) = t"
| "typeOf (VPtr t _) = t"
| "typeOf VNil = TAny"

fun retag :: "rtype \<Rightarrow> val \<Rightarrow> val" where
  "retag t (VBool _ b) = VBool t b"
| "retag t (VInt _ n) = VInt t n"
| "retag t (VString _ s) = VString t s"
| "retag t (VSlice _ xs) = VSlice t xs"
| "retag t (VMap _ m) = VMap t m"
| "retag t (VStruct _ vs) = VStruct t vs"
| "retag t (VPtr _ p) = VPtr t p"
| "retag t VNil = VNil"

text \<open>The zero value of a type (\<^verbatim>\<open>reflect.New(t).Elem()\<close>), tagged with the type itself.\<close>

function zeroOf :: "rtype \<Rightarrow> rtype \<Rightarrow> val" where
  "zeroOf t TBool = VBool t False"
| "zeroOf t TInt = VInt t 0"
| "zeroOf t TString = VString t ''''"
| "zeroOf t TAny = VNil"
| "zeroOf t (TSlice _) = VSlice t None"
| "zeroOf t (TMap _ _) = VMap t None"
| "zeroOf t (TPtr _) = VPtr t None"
| "zeroOf t (TStruct fs) = VStruct t (map (\<lambda>f. zeroOf (ftype f) (ftype f)) fs)"
| "zeroOf t (TDefined _ _ u _) = zeroOf t u"
  by pat_completeness auto
termination
proof (relation "measure (\<lambda>(t, u). size u)", goal_cases)
  case (2 t fs f)
  have "size (ftype f) < size f" by (cases f) simp
  moreover have "size f \<le> size_list size fs"
    using 2 by (simp add: size_list_estimation')
  ultimately show ?case by simp
qed simp_all

definition zero :: "rtype \<Rightarrow> val" where
  "zero t = zeroOf t t"


section \<open>The operations of package reflect the code uses\<close>

text \<open>
  The struct under construction, its maps and its slices are only reachable through the
  constructor that allocated them, so mutation in place is modelled by returning the new value.
  Every failure inside package reflect is the one panic \<open>ReflectPanic\<close>.
\<close>

fun rvType :: "rvalue \<Rightarrow> rtype res" where
  "rvType Invalid = Panic ReflectPanic"
| "rvType (RV t _) = Ok t"

text \<open>\<^verbatim>\<open>Value.assignTo\<close>: the content stored in a slot of type \<open>dst\<close>.\<close>

fun assignTo :: "rvalue \<Rightarrow> rtype \<Rightarrow> val res" where
  "assignTo Invalid dst = Panic ReflectPanic"
| "assignTo (RV st v) dst =
     (if Kind dst = KInterface then Ok v
      else if directlyAssignable dst st then Ok (retag dst v)
      else Panic ReflectPanic)"

text \<open>\<^verbatim>\<open>string(rune(n))\<close>: the UTF-8 encoding, U+FFFD for what is no code point.\<close>

definition encodeRune :: "int \<Rightarrow> string" where
  "encodeRune r =
     (if r < 0 \<or> 1114111 < r \<or> (55296 \<le> r \<and> r \<le> 57343)
        then [char_of (239::int), char_of (191::int), char_of (189::int)]
      else if r < 128 then [char_of r]
      else if r < 2048 then [char_of (192 + r div 64), char_of (128 + r mod 64)]
      else if r < 65536
        then [char_of (224 + r div 4096), char_of (128 + (r div 64) mod 64), char_of (128 + r mod 64)]
      else [char_of (240 + r div 262144), char_of (128 + (r div 4096) mod 64),
            char_of (128 + (r div 64) mod 64), char_of (128 + r mod 64)])"

text \<open>\<^verbatim>\<open>Value.Convert\<close>, in the order of \<^verbatim>\<open>convertOp\<close>.\<close>

fun Convert :: "rvalue \<Rightarrow> rtype \<Rightarrow> val res" where
  "Convert Invalid dst = Panic ReflectPanic"
| "Convert (RV st v) dst =
     (if Kind st = KInt \<and> Kind dst = KInt then Ok (retag dst v)
      else if Kind st = KInt \<and> Kind dst = KString
        then (case v of VInt _ n \<Rightarrow> Ok (VString dst (encodeRune n)) | _ \<Rightarrow> Panic ReflectPanic)
      else if identicalUnderlying dst st
        then Ok (if Kind dst = KInterface then v else retag dst v)
      else if Kind dst = KPointer \<and> tname dst = '''' \<and> Kind st = KPointer \<and> tname st = ''''
              \<and> identicalUnderlying (elemT dst) (elemT st)
        then Ok (retag dst v)
      else if Kind dst = KInterface then Ok v
      else Panic ReflectPanic)"

function IsZero :: "rtype \<Rightarrow> val \<Rightarrow> bool" where
  "IsZero t (VBool _ b) = (Kind t \<noteq> KInterface \<and> \<not> b)"
| "IsZero t (VInt _ n) = (Kind t \<noteq> KInterface \<and> n = 0)"
| "IsZero t (VString _ s) = (Kind t \<noteq> KInterface \<and> s = [])"
| "IsZero t (VSlice _ xs) = (Kind t \<noteq> KInterface \<and> xs = None)"
| "IsZero t (VMap _ m) = (Kind t \<noteq> KInterface \<and> m = None)"
| "IsZero t (VPtr _ p) = (Kind t \<noteq> KInterface \<and> p = None)"
| "IsZero t (VStruct _ vs) =
     (Kind t \<noteq> KInterface \<and> list_all (\<lambda>(f, x). IsZero (ftype f) x) (zip (fields t) vs))"
| "IsZero t VNil = True"
  by pat_completeness auto
termination
proof (relation "measure (\<lambda>(t, v). size v)", goal_cases)
  case (2 t s vs p f x)
  then have "x \<in> set vs" by (auto dest: set_zip_rightD)
  then have "size x \<le> size_list size vs" by (simp add: size_list_estimation')
  then show ?case by simp
qed simp_all

text \<open>\<^verbatim>\<open>Value.FieldByIndex\<close> with a one-element index, and \<^verbatim>\<open>Set\<close> on the field it returns.\<close>

fun FieldByIndex :: "rvalue \<Rightarrow> nat \<Rightarrow> rvalue res" where
  "FieldByIndex (RV t (VStruct s vs)) i =
     (if Kind t = KStruct \<and> i < length (fields t) \<and> i < length vs
      then Ok (RV (ftype (fields t ! i)) (vs ! i))
      else Panic ReflectPanic)"
| "FieldByIndex _ i = Panic ReflectPanic"

fun fieldSet :: "rvalue \<Rightarrow> nat \<Rightarrow> rvalue \<Rightarrow> rvalue res" where
  "fieldSet (RV t (VStruct s vs)) i x =
     (if Kind t = KStruct \<and> i < length (fields t) \<and> i < length vs
      then (if \<not> IsExported (fields t ! i) then Panic ReflectPanic
            else bind (assignTo x (ftype (fields t ! i)))
                   (\<lambda>c. Ok (RV t (VStruct s (vs[i := c])))))
      else Panic ReflectPanic)"
| "fieldSet _ i x = Panic ReflectPanic"

fun MakeMap :: "rtype \<Rightarrow> rvalue res" where
  "MakeMap t = (if Kind t = KMap then Ok (RV t (VMap t (Some []))) else Panic ReflectPanic)"

fun hashable :: "val \<Rightarrow> bool" where
  "hashable (VSlice _ _) = False"
| "hashable (VMap _ _) = False"
| "hashable (VStruct _ vs) = list_all hashable vs"
| "hashable _ = True"

text \<open>\<^verbatim>\<open>Value.SetMapIndex\<close>; the zero Value as element deletes the key.\<close>

fun SetMapIndex :: "rvalue \<Rightarrow> rvalue \<Rightarrow> rvalue \<Rightarrow> rvalue res" where
  "SetMapIndex (RV t (VMap s es)) k e =
     (if Kind t \<noteq> KMap then Panic ReflectPanic
      else bind (assignTo k (keyT t)) (\<lambda>kc.
        if \<not> hashable kc then Panic ReflectPanic
        else (case e of
            Invalid \<Rightarrow> Ok (RV t (VMap s (map_option (AList.delete kc) es)))
          | RV _ _ \<Rightarrow> bind (assignTo e (elemT t)) (\<lambda>ec.
              (case es of
                 None \<Rightarrow> Panic ReflectPanic
               | Some l \<Rightarrow> Ok (RV t (VMap s (Some (AList.update kc ec l)))))))))"
| "SetMapIndex _ k e = Panic ReflectPanic"

text \<open>The entries \<^verbatim>\<open>Value.MapRange\<close> iterates over, as Values of the key and element type.\<close>

fun MapRange :: "rvalue \<Rightarrow> (rvalue \<times> rvalue) list" where
  "MapRange (RV t (VMap _ (Some l))) = map (\<lambda>(k, e). (RV (keyT t) k, RV (elemT t) e)) l"
| "MapRange _ = []"

text \<open>
  \<^verbatim>\<open>reflect.AppendSlice\<close> wants two slices of one type; appending nothing to a nil slice
  leaves it nil. \<^verbatim>\<open>reflect.Append\<close> assigns the value to the element type.
\<close>

fun AppendSlice :: "rvalue \<Rightarrow> rvalue \<Rightarrow> rvalue res" where
  "AppendSlice (RV ts (VSlice s xs)) (RV tt (VSlice _ ys)) =
     (if Kind ts \<noteq> KSlice \<or> Kind tt \<noteq> KSlice \<or> ts \<noteq> tt then Panic ReflectPanic
      else Ok (RV ts (VSlice s
        (case (xs, ys) of
           (None, None) \<Rightarrow> None
         | (None, Some []) \<Rightarrow> None
         | (None, Some zs) \<Rightarrow> Some zs
         | (Some us, None) \<Rightarrow> Some us
         | (Some us, Some zs) \<Rightarrow> Some (us @ zs)))))"
| "AppendSlice _ _ = Panic ReflectPanic"

fun Append :: "rvalue \<Rightarrow> rvalue \<Rightarrow> rvalue res" where
  "Append (RV ts (VSlice s xs)) x =
     (if Kind ts \<noteq> KSlice then Panic ReflectPanic
      else bind (assignTo x (elemT ts)) (\<lambda>c.
        Ok (RV ts (VSlice s (Some ((case xs of None \<Rightarrow> [] | Some us \<Rightarrow> us) @ [c]))))))"
| "Append _ x = Panic ReflectPanic"

section \<open>Package tstruct\<close>

text \<open>
  An \<^verbatim>\<open>applyFn\<close> is \<^verbatim>\<open>func(v reflect.Value)\<close>: it mutates what \<open>v\<close> refers to, so
  the model returns the Value after the call. A \<^verbatim>\<open>savedApplyFn\<close> takes the arguments
  of the template and returns the \<^verbatim>\<open>applyFn\<close>.
  An entry of the FuncMap is a \<^verbatim>\<open>func(args ...applyFn) R\<close> for some result type \<open>R\<close>
  (a type of the program, or \<^verbatim>\<open>reflect.Value\<close>), a \<^verbatim>\<open>savedApplyFn\<close>, or anything else.
  The \<^verbatim>\<open>TStructSet\<close> methods of the program are a parameter: the method of a type takes
  the arguments and the zero value its receiver points to, and leaves the new value there.
\<close>

type_synonym applyFn = "rvalue \<Rightarrow> rvalue res"

type_synonym savedApplyFn = "rvalue list \<Rightarrow> applyFn"

type_synonym methods = "rtype \<Rightarrow> rvalue list \<Rightarrow> val \<Rightarrow> val res"

datatype tparam = TT rtype | TValue

datatype entry =
    Ctor tparam "applyFn list \<Rightarrow> rvalue res"
  | Setter savedApplyFn
  | Other

type_synonym fnmap = "string \<rightharpoonup> entry"

text \<open>\<^verbatim>\<open>type fieldsAreUnset map[string]bool\<close>, as the association list of its entries.\<close>

type_synonym fieldsAreUnset = "(string \<times> bool) list"

definition fieldsAreUnsetType :: rtype where
  "fieldsAreUnsetType = TDefined 0 ''fieldsAreUnset'' (TMap TString TBool) None"

text \<open>\<^verbatim>\<open>reflect.ValueOf(r2)\<close>, and the entries of the map read back after the calls.\<close>

definition sentinel :: "fieldsAreUnset \<Rightarrow> rvalue" where
  "sentinel r =
     RV fieldsAreUnsetType
        (VMap fieldsAreUnsetType (Some (map (\<lambda>(k, b). (VString TString k, VBool TBool b)) r)))"

fun keyString :: "val \<Rightarrow> string" where
  "keyString (VString _ s) = s"
| "keyString _ = ''''"

fun unsetKeys :: "rvalue \<Rightarrow> string list" where
  "unsetKeys (RV _ (VMap _ (Some es))) = map (\<lambda>(k, b). keyString k) es"
| "unsetKeys _ = []"

fun mapDelete :: "val \<Rightarrow> val \<Rightarrow> val" where
  "mapDelete k (VMap s es) = VMap s (map_option (AList.delete k) es)"
| "mapDelete k v = v"

fun didMarkFieldAsSet :: "rvalue \<Rightarrow> string \<Rightarrow> (bool \<times> rvalue) res" where
  "didMarkFieldAsSet Invalid name = Panic ReflectPanic"
| "didMarkFieldAsSet (RV t v) name =
     (if t \<noteq> fieldsAreUnsetType then Ok (False, RV t v)
      else Ok (True, RV t (mapDelete (VString TString name) v)))"

fun devirt :: "rvalue \<Rightarrow> rvalue res" where
  "devirt Invalid = Panic ReflectPanic"
| "devirt (RV t v) =
     Ok (if Kind t = KInterface then (if v = VNil then Invalid else RV (typeOf v) v) else RV t v)"

fun devirtAll :: "rvalue list \<Rightarrow> rvalue list res" where
  "devirtAll [] = Ok []"
| "devirtAll (x # xs) = bind (devirt x) (\<lambda>y. bind (devirtAll xs) (\<lambda>ys. Ok (y # ys)))"

text \<open>\<^verbatim>\<open>convertAndSet\<close> on field \<open>i\<close> of the struct \<open>dst\<close>.\<close>

definition convertAndSet :: "rvalue \<Rightarrow> nat \<Rightarrow> rvalue \<Rightarrow> rvalue res" where
  "convertAndSet dst i src =
     bind (FieldByIndex dst i) (\<lambda>out.
     bind (rvType out) (\<lambda>t.
     bind (Convert src t) (\<lambda>c. fieldSet dst i (RV t c))))"

text \<open>The four closures of \<^verbatim>\<open>genSavedApplyFnForField\<close>, for the field at index \<open>i\<close>.\<close>

definition hookApply :: "methods \<Rightarrow> rtype \<Rightarrow> nat \<Rightarrow> string \<Rightarrow> savedApplyFn" where
  "hookApply ms ft i name args v =
     bind (didMarkFieldAsSet v name) (\<lambda>(marked, v).
       if marked then Ok v
       else bind (devirtAll args) (\<lambda>dvArgs.
            bind (ms ft dvArgs (zero ft)) (\<lambda>x. convertAndSet v i (RV ft x))))"

fun setAll :: "rvalue \<Rightarrow> (rvalue \<times> rvalue) list \<Rightarrow> rvalue res" where
  "setAll f [] = Ok f"
| "setAll f ((k, e) # rest) = bind (SetMapIndex f k e) (\<lambda>f'. setAll f' rest)"

fun setPairs :: "rvalue \<Rightarrow> rvalue list \<Rightarrow> rvalue res" where
  "setPairs f (k # e # rest) =
     bind (devirt k) (\<lambda>k'. bind (devirt e) (\<lambda>e'.
     bind (SetMapIndex f k' e') (\<lambda>f'. setPairs f' rest)))"
| "setPairs f _ = Ok f"

text \<open>The map lives in the field: what \<^verbatim>\<open>SetMapIndex\<close> did to it is stored back.\<close>

fun putField :: "rvalue \<Rightarrow> nat \<Rightarrow> rvalue \<Rightarrow> rvalue res" where
  "putField (RV t (VStruct s vs)) i (RV _ c) = Ok (RV t (VStruct s (vs[i := c])))"
| "putField _ i _ = Panic ReflectPanic"

definition mapApply :: "nat \<Rightarrow> string \<Rightarrow> savedApplyFn" where
  "mapApply i name args dst =
     bind (didMarkFieldAsSet dst name) (\<lambda>(marked, dst).
       if marked then Ok dst
       else
         bind (FieldByIndex dst i) (\<lambda>f0.
         bind (rvType f0) (\<lambda>ftyp.
         bind (case f0 of
                 RV _ c \<Rightarrow> if IsZero ftyp c then bind (MakeMap ftyp) (fieldSet dst i) else Ok dst
               | Invalid \<Rightarrow> Panic ReflectPanic) (\<lambda>dst.
         bind (FieldByIndex dst i) (\<lambda>f.
         bind (if length args = 1
               then bind (devirt (args ! 0)) (\<lambda>arg.
                    bind (rvType arg) (\<lambda>typ.
                      if Kind typ \<noteq> KMap then Ok None
                      else if Kind ftyp \<noteq> KMap then Panic ReflectPanic
                      else if AssignableTo (keyT typ) (keyT ftyp)
                              \<and> AssignableTo (elemT typ) (elemT ftyp)
                        then bind (setAll f (MapRange arg)) (\<lambda>f'. Ok (Some f'))
                      else Ok None))
               else Ok None) (\<lambda>copied.
           case copied of
             Some f' \<Rightarrow> putField dst i f'
           | None \<Rightarrow>
               if odd (length args) then Panic (OddArgs name (length args))
               else bind (setPairs f args) (putField dst i)))))))"

fun appendArgs :: "rvalue \<Rightarrow> nat \<Rightarrow> rvalue list \<Rightarrow> rvalue res" where
  "appendArgs dst i [] = Ok dst"
| "appendArgs dst i (arg # rest) =
     bind (FieldByIndex dst i) (\<lambda>f.
     bind (rvType arg) (\<lambda>atyp.
     bind (rvType f) (\<lambda>ftyp.
     bind (if AssignableTo atyp ftyp then AppendSlice f arg else Append f arg) (\<lambda>f'.
     bind (fieldSet dst i f') (\<lambda>dst'. appendArgs dst' i rest)))))"

definition sliceApply :: "nat \<Rightarrow> string \<Rightarrow> savedApplyFn" where
  "sliceApply i name args dst =
     bind (didMarkFieldAsSet dst name) (\<lambda>(marked, dst).
       if marked then Ok dst
       else bind (FieldByIndex dst i) (\<lambda>f.
            bind (devirtAll args) (\<lambda>dvArgs. appendArgs dst i dvArgs)))"

definition plainApply :: "nat \<Rightarrow> string \<Rightarrow> savedApplyFn" where
  "plainApply i name args dst =
     bind (didMarkFieldAsSet dst name) (\<lambda>(marked, dst).
       if marked then Ok dst
       else bind (FieldByIndex dst i) (\<lambda>out.
            bind (rvType out) (\<lambda>otyp.
              let x = (case args of
                         [] \<Rightarrow> if Kind otyp = KBool then RV TBool (VBool TBool True) else Invalid
                       | [a] \<Rightarrow> a
                       | _ \<Rightarrow> Invalid)
              in if x = Invalid then Panic (WrongNumArgs name)
                 else bind (devirt x) (\<lambda>src. convertAndSet dst i src))))"

definition genSavedApplyFnForField :: "methods \<Rightarrow> sfield \<Rightarrow> nat \<Rightarrow> string \<Rightarrow> savedApplyFn res" where
  "genSavedApplyFnForField ms f i name =
     (case ptrMethod (ftype f) of
        Some method \<Rightarrow>
          if hnumOut method \<noteq> 0 then Err (HookReturnsValues (tname (ftype f)) (fname f))
          else if valMethod (ftype f) \<noteq> None then Err (HookValueReceiver (tname (ftype f)) (fname f))
          else Ok (hookApply ms (ftype f) i name)
      | None \<Rightarrow>
          (case Kind (ftype f) of
             KMap \<Rightarrow> Ok (mapApply i name)
           | KSlice \<Rightarrow> Ok (sliceApply i name)
           | _ \<Rightarrow> Ok (plainApply i name)))"

definition setSavedApplyFn :: "fnmap \<Rightarrow> string \<Rightarrow> rtype \<Rightarrow> savedApplyFn \<Rightarrow> fnmap res" where
  "setSavedApplyFn fnmap name typ fn =
     (case fnmap name of
        None \<Rightarrow> Ok (fnmap(name \<mapsto> Setter fn))
      | Some (Setter dispatch) \<Rightarrow>
          Ok (fnmap(name \<mapsto> Setter (\<lambda>args dst.
            bind (didMarkFieldAsSet dst name) (\<lambda>(marked, dst).
              if marked then Ok dst
              else bind (rvType dst) (\<lambda>t.
                     if t = typ then fn args dst else dispatch args dst)))))
      | Some _ \<Rightarrow> Err (ConflictSetter name))"

text \<open>\<^verbatim>\<open>strings.Join\<close>.\<close>

fun join :: "string list \<Rightarrow> string \<Rightarrow> string" where
  "join [] sep = []"
| "join [x] sep = x"
| "join (x # y # ys) sep = x @ sep @ join (y # ys) sep"

text \<open>The first loop of \<^verbatim>\<open>addStructFuncs\<close>: the map \<open>required\<close>, nil when it stays empty.\<close>

fun requiredFields :: "sfield list \<Rightarrow> fieldsAreUnset \<Rightarrow> fieldsAreUnset" where
  "requiredFields [] required = required"
| "requiredFields (f # fs) required =
     (if \<not> IsExported f \<or> ftag f \<noteq> ''+'' then requiredFields fs required
      else requiredFields fs (AList.update (fname f) True required))"

fun applyAll :: "applyFn list \<Rightarrow> rvalue \<Rightarrow> rvalue res" where
  "applyAll [] v = Ok v"
| "applyAll (apply # args) v = bind (apply v) (applyAll args)"

text \<open>\<^verbatim>\<open>v.Addr()\<close>.\<close>

fun Addr :: "rvalue \<Rightarrow> rvalue" where
  "Addr (RV t c) = RV (TPtr t) (VPtr (TPtr t) (Some c))"
| "Addr Invalid = Invalid"

text \<open>
  The constructor closure. It captures the map \<open>required\<close> of its registration; the model
  returns, next to the outcome of the call, that captured map as the call leaves it.
  \<^verbatim>\<open>v.Interface().(T)\<close> panics unless \<open>v\<close> has the type \<open>T\<close>.
\<close>

definition checkRequired :: "rtype \<Rightarrow> fieldsAreUnset \<Rightarrow> applyFn list \<Rightarrow> unit res" where
  "checkRequired rt required args =
     (if required \<noteq> [] then
        (let r2 = required in
         bind (applyAll args (sentinel r2)) (\<lambda>rqv.
           if length (unsetKeys rqv) > 0
           then Panic (RequiredMissing
                  (join (sort (map (\<lambda>k. tname rt @ ''.'' @ k) (unsetKeys rqv))) '', ''
                   @ '' required but not provided''))
           else Ok ()))
      else Ok ())"

definition ctorReturn :: "tparam \<Rightarrow> rtype \<Rightarrow> rvalue \<Rightarrow> rvalue res" where
  "ctorReturn T origrt v =
     (case T of
        TValue \<Rightarrow> Ok v
      | TT t \<Rightarrow>
          (let v = (if Kind origrt = KPointer then Addr v else v)
           in bind (rvType v) (\<lambda>vt. if vt = t then Ok v else Panic ReflectPanic)))"

definition ctorBody ::
  "tparam \<Rightarrow> rtype \<Rightarrow> rtype \<Rightarrow> fieldsAreUnset \<Rightarrow> applyFn list \<Rightarrow> rvalue res \<times> fieldsAreUnset" where
  "ctorBody T origrt rt required args =
     (bind (checkRequired rt required args) (\<lambda>_.
      bind (applyAll args (RV rt (zero rt))) (ctorReturn T origrt)),
      required)"

definition ctor :: "tparam \<Rightarrow> rtype \<Rightarrow> rtype \<Rightarrow> fieldsAreUnset \<Rightarrow> applyFn list \<Rightarrow> rvalue res" where
  "ctor T origrt rt required args = fst (ctorBody T origrt rt required args)"

text \<open>
  \<^verbatim>\<open>registeredFuncMatches\<close>. The type assertion holds for a constructor of result type \<open>T\<close>.
  Any other \<^verbatim>\<open>func(args ...applyFn) R\<close> is called without arguments; the Value it returns
  has the static type \<open>R\<close>, and for \<^verbatim>\<open>reflect.Value\<close> its content is looked at instead.
\<close>

fun registeredFuncMatches :: "tparam \<Rightarrow> entry \<Rightarrow> rtype \<Rightarrow> bool res" where
  "registeredFuncMatches T (Ctor R x) rt =
     (if R = T then Ok True
      else bind (x []) (\<lambda>s.
        case R of
          TValue \<Rightarrow> bind (rvType s) (\<lambda>st. Ok (st = rt))
        | TT r \<Rightarrow> Ok (r = rt)))"
| "registeredFuncMatches T (Setter x) rt = Ok False"
| "registeredFuncMatches T Other rt = Ok False"

function addStructFuncs :: "methods \<Rightarrow> tparam \<Rightarrow> rtype \<Rightarrow> fnmap \<Rightarrow> fnmap res"
  and addFieldFuncs :: "methods \<Rightarrow> rtype \<Rightarrow> nat \<Rightarrow> sfield list \<Rightarrow> fnmap \<Rightarrow> fnmap res" where
  "addStructFuncs ms T origrt fnmap =
     (let rt = (if Kind origrt = KPointer then elemT origrt else origrt) in
      if tname rt = '''' then Err (AnonymousStruct rt)
      else
        bind (case fnmap (tname rt) of
                Some x \<Rightarrow>
                  bind (registeredFuncMatches T x rt) (\<lambda>match.
                    if \<not> match then Err (ConflictCtor (tname rt))
                    else Ok (T = TValue))
              | None \<Rightarrow> Ok False) (\<lambda>done.
          if done then Ok fnmap
          else if Kind rt \<noteq> KStruct then Panic ReflectPanic
          else
            (let required = requiredFields (fields rt) [] in
             addFieldFuncs ms rt 0 (fields rt)
               (fnmap(tname rt \<mapsto> Ctor T (ctor T origrt rt required))))))"
| "addFieldFuncs ms rt i [] fnmap = Ok fnmap"
| "addFieldFuncs ms rt i (f # fs) fnmap =
     (if \<not> IsExported f then addFieldFuncs ms rt (Suc i) fs fnmap
      else if ftag f = ''-'' then addFieldFuncs ms rt (Suc i) fs fnmap
      else
        bind (case Kind (ftype f) of
                KStruct \<Rightarrow> addStructFuncs ms TValue (ftype f) fnmap
              | KSlice \<Rightarrow>
                  (if Kind (elemT (ftype f)) = KStruct
                   then addStructFuncs ms TValue (elemT (ftype f)) fnmap
                   else Ok fnmap)
              | KMap \<Rightarrow>
                  bind (if Kind (keyT (ftype f)) = KStruct
                        then addStructFuncs ms TValue (keyT (ftype f)) fnmap
                        else Ok fnmap) (\<lambda>fnmap.
                    if Kind (elemT (ftype f)) = KStruct
                    then addStructFuncs ms TValue (elemT (ftype f)) fnmap
                    else Ok fnmap)
              | _ \<Rightarrow> Ok fnmap) (\<lambda>fnmap.
        bind (genSavedApplyFnForField ms f i (fname f)) (\<lambda>fn.
        bind (setSavedApplyFn fnmap (fname f) rt fn) (\<lambda>fnmap.
          addFieldFuncs ms rt (Suc i) fs fnmap))))"
  by pat_completeness auto
termination
proof (relation "measure (\<lambda>x. case x of
          Inl (ms, T, rt, m) \<Rightarrow> 2 * size rt + 1
        | Inr (ms, rt, i, fs, m) \<Rightarrow> 2 * size_list size fs)", goal_cases)
  have u: "size (underlying t) \<le> size t" for t
    by (induction t rule: underlying.induct) auto
  have e: "size (elemT t) \<le> size t" for t
    using u [of t] by (auto simp: elemT_def split: rtype.splits)
  have k: "size (keyT t) \<le> size t" for t
    using u [of t] by (auto simp: keyT_def split: rtype.splits)
  have fl: "size_list size (fields t) \<le> size t" for t
    using u [of t] by (auto simp: fields_def split: rtype.splits)
  have ft: "size (ftype f) < size f" for f
    by (cases f) simp
  {
    case 1
    show ?case by simp
  next
    case (2 ms T origrt fnmap rt d required)
    have "size_list size (fields rt) \<le> size rt" by (rule fl)
    moreover have "size rt \<le> size origrt" using 2(1) e [of origrt] by (auto split: if_splits)
    ultimately show ?case by simp
  next
    case 3
    then show ?case by simp
  next
    case 4
    then show ?case by simp
  next
    case (5 ms rt i f fs fnmap)
    show ?case using ft [of f] e [of "ftype f"] k [of "ftype f"] by simp
  next
    case (6 ms rt i f fs fnmap)
    show ?case using ft [of f] e [of "ftype f"] k [of "ftype f"] by simp
  next
    case (7 ms rt i f fs fnmap)
    show ?case using ft [of f] e [of "ftype f"] k [of "ftype f"] by simp
  next
    case (8 ms rt i f fs fnmap)
    show ?case using ft [of f] e [of "ftype f"] k [of "ftype f"] by simp
  next
    case 9
    then show ?case by simp
  }
qed

text \<open>\<^verbatim>\<open>copyFuncMap(dst, src)\<close>: every entry of \<open>src\<close> is stored in \<open>dst\<close>.\<close>

definition copyFuncMap :: "fnmap \<Rightarrow> fnmap \<Rightarrow> fnmap" where
  "copyFuncMap dst src = dst ++ src"

text \<open>
  \<^verbatim>\<open>AddFuncMap[T](base)\<close> returns its outcome and the map \<open>base\<close> as the call leaves it
  (\<open>None\<close> is the nil map). \<^verbatim>\<open>reflect.TypeOf\<close> of the zero value of an interface type is
  nil, and \<^verbatim>\<open>Kind\<close> on it panics.
\<close>

definition AddFuncMap :: "methods \<Rightarrow> rtype \<Rightarrow> fnmap option \<Rightarrow> unit res \<times> fnmap option" where
  "AddFuncMap ms T base =
     (case base of
        None \<Rightarrow> (Err NilBase, base)
      | Some b \<Rightarrow>
          if Kind T = KInterface then (Panic ReflectPanic, base)
          else
            (let origrt = T;
                 rt = (if Kind T = KPointer then elemT T else T)
             in if Kind rt \<noteq> KStruct then (Err (NonStruct rt), base)
                else
                  (let fnmap = copyFuncMap Map.empty b
                   in case addStructFuncs ms (TT T) origrt fnmap of
                        Err err \<Rightarrow> (Err err, base)
                      | Panic p \<Rightarrow> (Panic p, base)
                      | Ok fnmap \<Rightarrow> (Ok (), Some (copyFuncMap b fnmap)))))"

section \<open>Calls from a template\<close>

text \<open>
  The template engine looks a name up in the FuncMap and calls the entry. \<open>lookupFn\<close> is
  \<^verbatim>\<open>base[name]\<close>; \<open>callSetter\<close> is the call \<^verbatim>\<open>(Name args...)\<close> of a field function and
  \<open>callCtor\<close> the call \<^verbatim>\<open>(Name steps...)\<close> of a constructor. An entry of another type
  cannot be called that way, and the engine fails.
\<close>

definition lookupFn :: "fnmap option \<Rightarrow> string \<Rightarrow> entry option" where
  "lookupFn base name = (case base of None \<Rightarrow> None | Some m \<Rightarrow> m name)"

definition callSetter :: "fnmap option \<Rightarrow> string \<Rightarrow> rvalue list \<Rightarrow> applyFn" where
  "callSetter base name args =
     (case lookupFn base name of Some (Setter fn) \<Rightarrow> fn args | _ \<Rightarrow> (\<lambda>v. Panic ReflectPanic))"

definition callCtor :: "fnmap option \<Rightarrow> string \<Rightarrow> applyFn list \<Rightarrow> rvalue res" where
  "callCtor base name steps =
     (case lookupFn base name of Some (Ctor T c) \<Rightarrow> c steps | _ \<Rightarrow> Panic ReflectPanic)"

text \<open>The struct type that \<open>T\<close> or \<open>*T\<close> stands for.\<close>

definition structOf :: "rtype \<Rightarrow> rtype" where
  "structOf T = (if Kind T = KPointer then elemT T else T)"

text \<open>The names of the fields of a struct that get a field function.\<close>

definition setterNames :: "rtype \<Rightarrow> string set" where
  "setterNames rt = set (map fname (filter (\<lambda>f. IsExported f \<and> ftag f \<noteq> ''-'') (fields rt)))"

text \<open>
  Several calls of one constructor closure, one after the other, each starting from the
  captured map \<open>required\<close> as the call before left it.
\<close>

fun runCtor ::
  "tparam \<Rightarrow> rtype \<Rightarrow> rtype \<Rightarrow> fieldsAreUnset \<Rightarrow> applyFn list list \<Rightarrow> rvalue res list \<times> fieldsAreUnset" where
  "runCtor T origrt rt required [] = ([], required)"
| "runCtor T origrt rt required (args # calls) =
     (case ctorBody T origrt rt required args of
        (r, required') \<Rightarrow>
          (case runCtor T origrt rt required' calls of
             (rs, required'') \<Rightarrow> (r # rs, required'')))"

text \<open>
  The steps a registration makes on the FuncMap below the struct it was called for: a
  constructor is stored under a name that is free, and a field function is stored by
  \<^verbatim>\<open>setSavedApplyFn\<close>.
\<close>

inductive registers :: "methods \<Rightarrow> fnmap \<Rightarrow> fnmap \<Rightarrow> bool" for ms :: methods and m :: fnmap where
  same: "registers ms m m"
| ctor: "registers ms m m1 \<Longrightarrow> rt = (if Kind origrt = KPointer then elemT origrt else origrt) \<Longrightarrow>
         tname rt \<noteq> '''' \<Longrightarrow> Kind rt = KStruct \<Longrightarrow> m1 (tname rt) = None \<Longrightarrow>
         registers ms m (m1(tname rt \<mapsto> Ctor T (ctor T origrt rt (requiredFields (fields rt) []))))"
| setter: "registers ms m m1 \<Longrightarrow> i < length (fields rt) \<Longrightarrow> f = fields rt ! i \<Longrightarrow>
         IsExported f \<Longrightarrow> ftag f \<noteq> ''-'' \<Longrightarrow>
         genSavedApplyFnForField ms f i (fname f) = Ok fn \<Longrightarrow>
         setSavedApplyFn m1 (fname f) rt fn = Ok m2 \<Longrightarrow> registers ms m m2"

text \<open>The names of the fields of a struct that are tagged as required.\<close>

definition requiredNames :: "rtype \<Rightarrow> string list" where
  "requiredNames rt = map fname (filter (\<lambda>f. IsExported f \<and> ftag f = ''+'') (fields rt))"

text \<open>
  A field function marks a name when every apply step it returns, called with the sentinel map
  of a constructor, deletes that name from the map and does nothing else.
\<close>

definition marks :: "savedApplyFn \<Rightarrow> string \<Rightarrow> bool" where
  "marks fn name \<longleftrightarrow> (\<forall>args r. fn args (sentinel r) = Ok (sentinel (AList.delete name r)))"

text \<open>
  The field function under the name of field \<open>j\<close> of the struct \<open>rt\<close> does, to a Value
  of type \<open>rt\<close>, what the function generated for that field does.
\<close>

definition ownSetter :: "methods \<Rightarrow> fnmap option \<Rightarrow> rtype \<Rightarrow> nat \<Rightarrow> bool" where
  "ownSetter ms base rt j \<longleftrightarrow>
     (\<exists>g fn. lookupFn base (fname (fields rt ! j)) = Some (Setter g)
        \<and> genSavedApplyFnForField ms (fields rt ! j) j (fname (fields rt ! j)) = Ok fn
        \<and> (\<forall>args c. g args (RV rt c) = fn args (RV rt c)))"

section \<open>What the setters of slices and maps are to store\<close>

text \<open>
  The elements of a slice and the entries of a map, none for nil.
\<close>

fun sliceElems :: "val \<Rightarrow> val list" where
  "sliceElems (VSlice _ (Some xs)) = xs"
| "sliceElems _ = []"

fun mapEntries :: "val \<Rightarrow> (val \<times> val) list" where
  "mapEntries (VMap _ (Some l)) = l"
| "mapEntries _ = []"

text \<open>
  What the arguments of a call add to a slice field of type \<open>ft\<close>: an argument of the type
  of the field adds its elements, any other argument is itself one element, stored as the
  element type has it. Arguments that neither are of the type of the field nor can be assigned
  to its element type add nothing that is defined, and neither does an argument of another type
  that is assignable to the type of the field.
\<close>

fun splicedArgs :: "rtype \<Rightarrow> rvalue list \<Rightarrow> val list option" where
  "splicedArgs ft [] = Some []"
| "splicedArgs ft (Invalid # args) = None"
| "splicedArgs ft (RV t c # args) =
     (case splicedArgs ft args of
        None \<Rightarrow> None
      | Some rest \<Rightarrow>
          if t = ft then (case c of VSlice _ _ \<Rightarrow> Some (sliceElems c @ rest) | _ \<Rightarrow> None)
          else if AssignableTo t ft then None
          else (case assignTo (RV t c) (elemT ft) of Ok x \<Rightarrow> Some (x # rest) | _ \<Rightarrow> None))"

text \<open>
  The arguments of a call taken as (key, element) pairs, and the entries a list of such pairs
  adds to a map field of type \<open>ft\<close>: each key and element as the key and element type store
  it, defined when all of them can be assigned and the keys can be hashed.
\<close>

fun pairsOf :: "rvalue list \<Rightarrow> (rvalue \<times> rvalue) list option" where
  "pairsOf [] = Some []"
| "pairsOf [k] = None"
| "pairsOf (k # e # rest) = map_option ((#) (k, e)) (pairsOf rest)"

fun storedEntries :: "rtype \<Rightarrow> (rvalue \<times> rvalue) list \<Rightarrow> (val \<times> val) list option" where
  "storedEntries ft [] = Some []"
| "storedEntries ft ((k, e) # rest) =
     (case assignTo k (keyT ft) of
        Ok kc \<Rightarrow>
          (case assignTo e (elemT ft) of
             Ok ec \<Rightarrow>
               (if hashable kc then map_option ((#) (kc, ec)) (storedEntries ft rest) else None)
           | _ \<Rightarrow> None)
      | _ \<Rightarrow> None)"

section \<open>Programs used as concrete inputs\<close>

text \<open>A program that declares no \<^verbatim>\<open>TStructSet\<close> method never has one called.\<close>

definition noMethods :: methods where
  "noMethods t args z = Panic ReflectPanic"

text \<open>\<^verbatim>\<open>type A struct { F int `tstruct:"+"` }\<close> and \<^verbatim>\<open>type W struct { Inner A }\<close>.\<close>

definition reqA :: rtype where
  "reqA = TDefined 1 ''A'' (TStruct [SField ''F'' '''' ''+'' TInt]) None"

definition wrapA :: rtype where
  "wrapA = TDefined 2 ''W'' (TStruct [SField ''Inner'' '''' '''' reqA]) None"

text \<open>\<^verbatim>\<open>type X struct { F int `tstruct:"x"` }\<close>.\<close>

definition tagX :: rtype where
  "tagX = TDefined 3 ''X'' (TStruct [SField ''F'' '''' ''x'' TInt]) None"

text \<open>\<^verbatim>\<open>type S struct { URL string }\<close> and \<^verbatim>\<open>type WrapS struct { Inner S }\<close>.\<close>

definition plainS :: rtype where
  "plainS = TDefined 4 ''S'' (TStruct [SField ''URL'' '''' '''' TString]) None"

definition wrapS :: rtype where
  "wrapS = TDefined 5 ''WrapS'' (TStruct [SField ''Inner'' '''' '''' plainS]) None"

text \<open>A struct with an optional field and three required ones, as \<^verbatim>\<open>R\<close> in the tests.\<close>

definition reqR :: rtype where
  "reqR = TDefined 6 ''R'' (TStruct
     [SField ''NotReq'' '''' '''' TString,
      SField ''ReqInt'' '''' ''+'' TInt,
      SField ''ReqSlice'' '''' ''+'' (TSlice TInt),
      SField ''ReqMap'' '''' ''+'' (TMap TString TInt)]) None"

text \<open>\<^verbatim>\<open>type X struct { F int `tstruct:"+"` }\<close>.\<close>

definition reqX :: rtype where
  "reqX = TDefined 7 ''X'' (TStruct [SField ''F'' '''' ''+'' TInt]) None"

text \<open>An int and a string as the template engine passes them.\<close>

definition vint :: "int \<Rightarrow> rvalue" where
  "vint n = RV TInt (VInt TInt n)"

definition vstr :: "string \<Rightarrow> rvalue" where
  "vstr s = RV TString (VString TString s)"

text \<open>
  \<^verbatim>\<open>type Z string\<close> with \<^verbatim>\<open>func (z *Z) TStructSet(x string) { *z = "z" + Z(x) }\<close>, and
  the structs \<^verbatim>\<open>X { F int }\<close> and \<^verbatim>\<open>W { F Z }\<close>, which share a field name.
\<close>

definition zType :: rtype where
  "zType = TDefined 8 ''Z'' TString (Some (Hook PtrRecv 0))"

definition zMethods :: methods where
  "zMethods t args z =
     (case args of [RV _ (VString _ x)] \<Rightarrow> Ok (VString t (''z'' @ x)) | _ \<Rightarrow> Panic ReflectPanic)"

definition fieldX :: rtype where
  "fieldX = TDefined 9 ''X'' (TStruct [SField ''F'' '''' '''' TInt]) None"

definition fieldW :: rtype where
  "fieldW = TDefined 11 ''W'' (TStruct [SField ''F'' '''' '''' zType]) None"

text \<open>\<^verbatim>\<open>type T struct { X []int }\<close> and \<^verbatim>\<open>type T struct { M map[string]int }\<close>.\<close>

definition sliceT :: rtype where
  "sliceT = TDefined 12 ''T'' (TStruct [SField ''X'' '''' '''' (TSlice TInt)]) None"

definition mapT :: rtype where
  "mapT = TDefined 13 ''T'' (TStruct [SField ''M'' '''' '''' (TMap TString TInt)]) None"

section \<open>Registration as a sequence of steps\<close>

lemma bind_eq_Ok: "bind r f = Ok y \<longleftrightarrow> (\<exists>x. r = Ok x \<and> f x = Ok y)"
  by (cases r) auto

lemma registers_trans: "registers ms m1 m2 \<Longrightarrow> registers ms m0 m1 \<Longrightarrow> registers ms m0 m2"
proof (induction rule: registers.induct)
  case same
  then show ?case .
next
  case (ctor m1' rt origrt T)
  have "registers ms m0 m1'" using ctor.IH ctor.prems by simp
  then show ?case using ctor.hyps(2-5) by (rule registers.ctor)
next
  case (setter m1' i rt f fn m2)
  have "registers ms m0 m1'" using setter.IH setter.prems by simp
  then show ?case using setter.hyps(2-7) by (rule registers.setter)
qed

lemma addStructFuncs_Ok_cases:
  assumes ok: "addStructFuncs ms T origrt fnmap = Ok m'"
    and rt: "rt = (if Kind origrt = KPointer then elemT origrt else origrt)"
  shows "(T = TValue \<and> fnmap (tname rt) \<noteq> None \<and> m' = fnmap)
       \<or> (tname rt \<noteq> '''' \<and> Kind rt = KStruct
          \<and> (fnmap (tname rt) = None
               \<or> (\<exists>x. fnmap (tname rt) = Some x \<and> registeredFuncMatches T x rt = Ok True \<and> T \<noteq> TValue))
          \<and> addFieldFuncs ms rt 0 (fields rt)
               (fnmap(tname rt \<mapsto> Ctor T (ctor T origrt rt (requiredFields (fields rt) [])))) = Ok m')"
proof -
  note ok' = ok [unfolded addStructFuncs.simps [of ms T origrt fnmap] Let_def, folded rt]
  show ?thesis
  proof (cases "fnmap (tname rt)")
    case None
    then show ?thesis using ok' by (simp split: if_splits)
  next
    case (Some x)
    then show ?thesis using ok' by (auto simp: bind_eq_Ok split: if_splits)
  qed
qed

lemma drop_Cons_nth:
  assumes "f # fs = drop i xs"
  shows "i < length xs" "f = xs ! i" "fs = drop (Suc i) xs"
proof -
  show i: "i < length xs" using assms by (metis drop_eq_Nil leI list.distinct(1))
  have "f = xs ! i \<and> fs = drop (Suc i) xs"
    using assms Cons_nth_drop_Suc [OF i] by (metis list.inject)
  then show "f = xs ! i" "fs = drop (Suc i) xs" by simp_all
qed

lemma addFuncs_registers:
  "addStructFuncs ms T origrt fnmap = Ok m' \<Longrightarrow> T = TValue \<Longrightarrow> registers ms fnmap m'"
  "addFieldFuncs ms rt i fs fnmap = Ok m' \<Longrightarrow> fs = drop i (fields rt) \<Longrightarrow> registers ms fnmap m'"
proof (induction ms T origrt fnmap and ms rt i fs fnmap arbitrary: m' and m'
       rule: addStructFuncs_addFieldFuncs.induct)
  case (1 ms T origrt fnmap)
  define rt where "rt = (if Kind origrt = KPointer then elemT origrt else origrt)"
  let ?m1 = "fnmap(tname rt \<mapsto> Ctor T (ctor T origrt rt (requiredFields (fields rt) [])))"
  from addStructFuncs_Ok_cases [OF "1.prems"(1) rt_def]
  show ?case
  proof
    assume "T = TValue \<and> fnmap (tname rt) \<noteq> None \<and> m' = fnmap"
    then show ?thesis by (simp add: registers.same)
  next
    assume c: "tname rt \<noteq> '''' \<and> Kind rt = KStruct
          \<and> (fnmap (tname rt) = None
               \<or> (\<exists>x. fnmap (tname rt) = Some x \<and> registeredFuncMatches T x rt = Ok True \<and> T \<noteq> TValue))
          \<and> addFieldFuncs ms rt 0 (fields rt) ?m1 = Ok m'"
    then have nm: "tname rt \<noteq> ''''" and k: "Kind rt = KStruct"
      and ex: "fnmap (tname rt) = None"
      and fl: "addFieldFuncs ms rt 0 (fields rt) ?m1 = Ok m'"
      using "1.prems"(2) by blast+
    have r1: "registers ms fnmap ?m1"
      using registers.same rt_def nm k ex by (rule registers.ctor)
    have "registers ms ?m1 m'"
      using "1.IH" [OF rt_def nm _ _ refl fl, of False] k by (simp del: fun_upd_apply)
    then show ?thesis using r1 by (rule registers_trans)
  qed
next
  case (2 ms rt i fnmap)
  then show ?case by (simp add: registers.same)
next
  case (3 ms rt i f fs fnmap)
  note ok = "3.prems"(1) and d = drop_Cons_nth [OF "3.prems"(2)]
  show ?case
  proof (cases "\<not> IsExported f \<or> ftag f = ''-''")
    case True
    then have "addFieldFuncs ms rt (Suc i) fs fnmap = Ok m'" using ok by (auto split: if_splits)
    then show ?thesis using "3.IH"(1,2) True d(3) by auto
  next
    case False
    then obtain m1 fn m2 where
      n: "(case Kind (ftype f) of
              KStruct \<Rightarrow> addStructFuncs ms TValue (ftype f) fnmap
            | KSlice \<Rightarrow>
                (if Kind (elemT (ftype f)) = KStruct
                 then addStructFuncs ms TValue (elemT (ftype f)) fnmap
                 else Ok fnmap)
            | KMap \<Rightarrow>
                bind (if Kind (keyT (ftype f)) = KStruct
                      then addStructFuncs ms TValue (keyT (ftype f)) fnmap
                      else Ok fnmap) (\<lambda>fnmap.
                  if Kind (elemT (ftype f)) = KStruct
                  then addStructFuncs ms TValue (elemT (ftype f)) fnmap
                  else Ok fnmap)
            | _ \<Rightarrow> Ok fnmap) = Ok m1"
      and g: "genSavedApplyFnForField ms f i (fname f) = Ok fn"
      and s: "setSavedApplyFn m1 (fname f) rt fn = Ok m2"
      and r: "addFieldFuncs ms rt (Suc i) fs m2 = Ok m'"
      using ok by (auto simp: bind_eq_Ok simp del: addStructFuncs.simps)
    have r1: "registers ms fnmap m1"
    proof (cases "Kind (ftype f)")
      case KStruct
      then show ?thesis using n "3.IH"(6) False by (simp del: addStructFuncs.simps)
    next
      case KSlice
      then show ?thesis using n "3.IH"(3) False
        by (auto simp: registers.same simp del: addStructFuncs.simps split: if_splits)
    next
      case KMap
      from n KMap obtain m0 where
        a: "(if Kind (keyT (ftype f)) = KStruct
                      then addStructFuncs ms TValue (keyT (ftype f)) fnmap
                      else Ok fnmap) = Ok m0"
        and b: "(if Kind (elemT (ftype f)) = KStruct
                  then addStructFuncs ms TValue (elemT (ftype f)) m0
                  else Ok m0) = Ok m1"
        by (auto simp: bind_eq_Ok simp del: addStructFuncs.simps)
      have "registers ms fnmap m0" using a "3.IH"(4) False KMap
        by (auto simp: registers.same simp del: addStructFuncs.simps split: if_splits)
      moreover have "registers ms m0 m1" using b "3.IH"(5) False KMap
        by (auto simp: registers.same simp del: addStructFuncs.simps split: if_splits)
      ultimately show ?thesis using registers_trans by blast
    qed (use n in \<open>auto simp: registers.same\<close>)
    have r2: "registers ms fnmap m2"
      using registers.setter [OF r1 d(1) d(2) _ _ g s] False by simp
    have "registers ms m2 m'" using "3.IH"(7) False r d(3) by (simp del: addStructFuncs.simps)
    then show ?thesis using r2 registers_trans by blast
  qed
qed

text \<open>What one step of setSavedApplyFn does to the map.\<close>

lemma setSavedApplyFn_Ok:
  assumes "setSavedApplyFn m name typ fn = Ok m'"
  shows "\<exists>g. m' = m(name \<mapsto> Setter g) \<and> (m name = None \<or> (\<exists>d. m name = Some (Setter d)))"
  using assms by (auto simp: setSavedApplyFn_def split: option.splits entry.splits)

lemma registers_keeps:
  assumes "registers ms m m'"
  shows "m k = Some (Ctor R c) \<Longrightarrow> m' k = Some (Ctor R c)"
    and "m k = Some Other \<Longrightarrow> m' k = Some Other"
    and "m k \<noteq> None \<Longrightarrow> m' k \<noteq> None"
    and "(\<exists>g. m k = Some (Setter g)) \<Longrightarrow> (\<exists>g. m' k = Some (Setter g))"
  using assms
proof (induction rule: registers.induct)
  case same
  { case 1 then show ?case . next
    case 2 then show ?case . next
    case 3 then show ?case . next
    case 4 then show ?case . }
next
  case (ctor m1 rt origrt T)
  { case 1 then show ?case using ctor by auto next
    case 2 then show ?case using ctor by auto next
    case 3 then show ?case using ctor by auto next
    case 4 then show ?case using ctor by auto }
next
  case (setter m1 i rt f fn m2)
  from setSavedApplyFn_Ok [OF setter.hyps(7)] obtain g where
    m2: "m2 = m1(fname f \<mapsto> Setter g)"
    and old: "m1 (fname f) = None \<or> (\<exists>d. m1 (fname f) = Some (Setter d))" by blast
  { case 1 then show ?case using setter.IH(1) m2 old by auto next
    case 2 then show ?case using setter.IH(2) m2 old by auto next
    case 3 then show ?case using setter.IH(3) m2 by auto next
    case 4 then show ?case using setter.IH(4) m2 by auto }
qed

lemma AddFuncMap_Ok:
  assumes ok: "fst (AddFuncMap ms T base) = Ok ()"
    and rt: "rt = (if Kind T = KPointer then elemT T else T)"
  shows "\<exists>b m'. base = Some b \<and> snd (AddFuncMap ms T base) = Some m'
          \<and> tname rt \<noteq> '''' \<and> Kind rt = KStruct
          \<and> (b (tname rt) = None
               \<or> (\<exists>x. b (tname rt) = Some x \<and> registeredFuncMatches (TT T) x rt = Ok True))
          \<and> registers ms (b(tname rt \<mapsto> Ctor (TT T) (ctor (TT T) T rt (requiredFields (fields rt) [])))) m'
          \<and> addFieldFuncs ms rt 0 (fields rt)
                (b(tname rt \<mapsto> Ctor (TT T) (ctor (TT T) T rt (requiredFields (fields rt) [])))) = Ok m'"
proof -
  from ok obtain b where b: "base = Some b"
    by (cases base) (auto simp: AddFuncMap_def)
  from ok b obtain m' where
    a: "addStructFuncs ms (TT T) T b = Ok m'" and s: "snd (AddFuncMap ms T base) = Some (b ++ m')"
    by (auto simp: AddFuncMap_def copyFuncMap_def Let_def split: if_splits res.splits
             simp del: addStructFuncs.simps)
  let ?m1 = "b(tname rt \<mapsto> Ctor (TT T) (ctor (TT T) T rt (requiredFields (fields rt) [])))"
  from addStructFuncs_Ok_cases [OF a rt]
  have nm: "tname rt \<noteq> ''''" and k: "Kind rt = KStruct"
    and ex: "b (tname rt) = None
               \<or> (\<exists>x. b (tname rt) = Some x \<and> registeredFuncMatches (TT T) x rt = Ok True)"
    and fl: "addFieldFuncs ms rt 0 (fields rt) ?m1 = Ok m'"
    by blast+
  have r: "registers ms ?m1 m'" using addFuncs_registers(2) [OF fl] by simp
  have "b ++ m' = m'"
  proof
    fix k
    show "(b ++ m') k = m' k"
    proof (cases "m' k")
      case None
      have "?m1 k = None" using registers_keeps(3) [OF r, of k] None by blast
      then have "b k = None" by (simp split: if_splits)
      then show ?thesis using None by (simp add: map_add_def)
    next
      case (Some y)
      then show ?thesis by (simp add: map_add_def)
    qed
  qed
  then show ?thesis using b s nm k ex r fl by auto
qed

section \<open>What a registration leaves in the FuncMap\<close>

lemma delete_sentinel_entries:
  "AList.delete (VString TString name) (map (\<lambda>(k, b). (VString TString k, VBool TBool b)) r)
   = map (\<lambda>(k, b). (VString TString k, VBool TBool b)) (AList.delete name r)"
  by (induction r) (auto simp: AList.delete_eq)

lemma didMark_sentinel:
  "didMarkFieldAsSet (sentinel r) name = Ok (True, sentinel (AList.delete name r))"
  by (simp add: sentinel_def delete_sentinel_entries)

lemma didMark_instance:
  "t \<noteq> fieldsAreUnsetType \<Longrightarrow> didMarkFieldAsSet (RV t c) name = Ok (False, RV t c)"
  by simp

lemma unsetKeys_sentinel: "unsetKeys (sentinel r) = map fst r"
  by (induction r) (auto simp: sentinel_def)

lemma gen_marks:
  assumes "genSavedApplyFnForField ms f i name = Ok fn"
  shows "marks fn name"
  using assms
  by (auto simp: genSavedApplyFnForField_def marks_def hookApply_def mapApply_def sliceApply_def
        plainApply_def didMark_sentinel split: option.splits if_splits kind.splits)

lemma setSavedApplyFn_marks:
  assumes "setSavedApplyFn m name typ fn = Ok m'" and "marks fn name"
  shows "\<exists>g. m' name = Some (Setter g) \<and> marks g name"
  using assms
  by (auto simp: setSavedApplyFn_def marks_def didMark_sentinel split: option.splits entry.splits)

lemma registers_marks:
  assumes "registers ms m m'"
  shows "(\<exists>g. m k = Some (Setter g) \<and> marks g k) \<Longrightarrow> (\<exists>g. m' k = Some (Setter g) \<and> marks g k)"
  using assms
proof (induction rule: registers.induct)
  case same
  then show ?case .
next
  case (ctor m1 rt origrt T)
  then show ?case by auto
next
  case (setter m1 i rt f fn m2)
  show ?case
  proof (cases "k = fname f")
    case True
    then show ?thesis using setSavedApplyFn_marks [OF setter.hyps(7) gen_marks [OF setter.hyps(6)]] by simp
  next
    case False
    then show ?thesis using setter.IH setter.prems setSavedApplyFn_Ok [OF setter.hyps(7)] by auto
  qed
qed

lemma addFieldFuncs_Cons_Ok:
  assumes ok: "addFieldFuncs ms rt i (f # fs) m = Ok m'" and ex: "IsExported f" and ig: "ftag f \<noteq> ''-''"
  shows "\<exists>m1 fn m2. registers ms m m1 \<and> genSavedApplyFnForField ms f i (fname f) = Ok fn
           \<and> setSavedApplyFn m1 (fname f) rt fn = Ok m2 \<and> addFieldFuncs ms rt (Suc i) fs m2 = Ok m'"
proof -
  from ok ex ig obtain m1 fn m2 where
    n: "(case Kind (ftype f) of
            KStruct \<Rightarrow> addStructFuncs ms TValue (ftype f) m
          | KSlice \<Rightarrow>
              (if Kind (elemT (ftype f)) = KStruct
               then addStructFuncs ms TValue (elemT (ftype f)) m
               else Ok m)
          | KMap \<Rightarrow>
              bind (if Kind (keyT (ftype f)) = KStruct
                    then addStructFuncs ms TValue (keyT (ftype f)) m
                    else Ok m) (\<lambda>fnmap.
                if Kind (elemT (ftype f)) = KStruct
                then addStructFuncs ms TValue (elemT (ftype f)) fnmap
                else Ok fnmap)
          | _ \<Rightarrow> Ok m) = Ok m1"
    and g: "genSavedApplyFnForField ms f i (fname f) = Ok fn"
    and s: "setSavedApplyFn m1 (fname f) rt fn = Ok m2"
    and r: "addFieldFuncs ms rt (Suc i) fs m2 = Ok m'"
    by (auto simp: bind_eq_Ok simp del: addStructFuncs.simps)
  have "registers ms m m1"
  proof (cases "Kind (ftype f)")
    case KStruct
    then show ?thesis using n addFuncs_registers(1) by (simp del: addStructFuncs.simps)
  next
    case KSlice
    then show ?thesis using n addFuncs_registers(1)
      by (auto simp: registers.same simp del: addStructFuncs.simps split: if_splits)
  next
    case KMap
    from n KMap obtain m0 where
      a: "(if Kind (keyT (ftype f)) = KStruct
                    then addStructFuncs ms TValue (keyT (ftype f)) m
                    else Ok m) = Ok m0"
      and b: "(if Kind (elemT (ftype f)) = KStruct
                then addStructFuncs ms TValue (elemT (ftype f)) m0
                else Ok m0) = Ok m1"
      by (auto simp: bind_eq_Ok simp del: addStructFuncs.simps)
    have "registers ms m m0" using a addFuncs_registers(1)
      by (auto simp: registers.same simp del: addStructFuncs.simps split: if_splits)
    moreover have "registers ms m0 m1" using b addFuncs_registers(1)
      by (auto simp: registers.same simp del: addStructFuncs.simps split: if_splits)
    ultimately show ?thesis using registers_trans by blast
  qed (use n in \<open>auto simp: registers.same\<close>)
  then show ?thesis using g s r by blast
qed

lemma addFieldFuncs_each:
  assumes "addFieldFuncs ms rt i fs m = Ok m'" and "fs = drop i (fields rt)"
    and "i \<le> j" and "j < length (fields rt)"
    and "IsExported (fields rt ! j)" and "ftag (fields rt ! j) \<noteq> ''-''"
  shows "\<exists>m1 fn m2. registers ms m m1
           \<and> genSavedApplyFnForField ms (fields rt ! j) j (fname (fields rt ! j)) = Ok fn
           \<and> setSavedApplyFn m1 (fname (fields rt ! j)) rt fn = Ok m2 \<and> registers ms m2 m'"
  using assms
proof (induction fs arbitrary: i m)
  case Nil
  then show ?case by simp
next
  case (Cons f fs)
  note d = drop_Cons_nth [OF Cons.prems(2)]
  show ?case
  proof (cases "j = i")
    case True
    with Cons.prems d have ex: "IsExported f" and ig: "ftag f \<noteq> ''-''" by simp_all
    from addFieldFuncs_Cons_Ok [OF Cons.prems(1) ex ig] obtain m1 fn m2 where
      "registers ms m m1" "genSavedApplyFnForField ms f i (fname f) = Ok fn"
      "setSavedApplyFn m1 (fname f) rt fn = Ok m2" "addFieldFuncs ms rt (Suc i) fs m2 = Ok m'"
      by blast
    then show ?thesis using True d addFuncs_registers(2) by blast
  next
    case False
    then have j: "Suc i \<le> j" using Cons.prems(3) by simp
    show ?thesis
    proof (cases "IsExported f \<and> ftag f \<noteq> ''-''")
      case True
      from addFieldFuncs_Cons_Ok [OF Cons.prems(1)] True obtain m1 fn m2 where
        a: "registers ms m m1" "genSavedApplyFnForField ms f i (fname f) = Ok fn"
        "setSavedApplyFn m1 (fname f) rt fn = Ok m2" and r: "addFieldFuncs ms rt (Suc i) fs m2 = Ok m'"
        by blast
      have m2: "registers ms m m2"
        using registers.setter [OF a(1) d(1) d(2) _ _ a(2) a(3)] True by simp
      from Cons.IH [OF r d(3) j Cons.prems(4-6)] obtain n1 fn' n2 where
        b: "registers ms m2 n1"
        "genSavedApplyFnForField ms (fields rt ! j) j (fname (fields rt ! j)) = Ok fn'"
        "setSavedApplyFn n1 (fname (fields rt ! j)) rt fn' = Ok n2" "registers ms n2 m'"
        by blast
      have "registers ms m n1" using b(1) m2 by (rule registers_trans)
      then show ?thesis using b by blast
    next
      case False
      then have "addFieldFuncs ms rt (Suc i) fs m = Ok m'"
        using Cons.prems(1) by (auto split: if_splits)
      from Cons.IH [OF this d(3) j Cons.prems(4-6)] show ?thesis .
    qed
  qed
qed

lemma registered_field:
  assumes ok: "fst (AddFuncMap ms T base) = Ok ()"
    and j: "j < length (fields (structOf T))"
    and ex: "IsExported (fields (structOf T) ! j)" and ig: "ftag (fields (structOf T) ! j) \<noteq> ''-''"
  shows "\<exists>b m1 fn m2 m'. base = Some b \<and> snd (AddFuncMap ms T base) = Some m'
           \<and> Kind (structOf T) = KStruct
           \<and> registers ms (b(tname (structOf T) \<mapsto>
                    Ctor (TT T) (ctor (TT T) T (structOf T) (requiredFields (fields (structOf T)) [])))) m1
           \<and> genSavedApplyFnForField ms (fields (structOf T) ! j) j (fname (fields (structOf T) ! j)) = Ok fn
           \<and> setSavedApplyFn m1 (fname (fields (structOf T) ! j)) (structOf T) fn = Ok m2
           \<and> registers ms m2 m'"
proof -
  let ?rt = "structOf T"
  from AddFuncMap_Ok [OF ok, of ?rt] obtain b m' where
    b: "base = Some b" and s: "snd (AddFuncMap ms T base) = Some m'" and k: "Kind ?rt = KStruct"
    and fl: "addFieldFuncs ms ?rt 0 (fields ?rt)
          (b(tname ?rt \<mapsto> Ctor (TT T) (ctor (TT T) T ?rt (requiredFields (fields ?rt) [])))) = Ok m'"
    by (auto simp: structOf_def)
  from addFieldFuncs_each [OF fl _ _ j ex ig] b s k show ?thesis by auto
qed

lemma registered_setter_marks:
  assumes ok: "fst (AddFuncMap ms T base) = Ok ()" and n: "name \<in> setterNames (structOf T)"
  shows "\<exists>g. lookupFn (snd (AddFuncMap ms T base)) name = Some (Setter g) \<and> marks g name"
proof -
  from n obtain j where j: "j < length (fields (structOf T))"
    and ex: "IsExported (fields (structOf T) ! j)" and ig: "ftag (fields (structOf T) ! j) \<noteq> ''-''"
    and nm: "name = fname (fields (structOf T) ! j)"
    by (auto simp: setterNames_def in_set_conv_nth)
  from registered_field [OF ok j ex ig] obtain m1 fn m2 m' where
    s: "snd (AddFuncMap ms T base) = Some m'"
    and g: "genSavedApplyFnForField ms (fields (structOf T) ! j) j name = Ok fn"
    and st: "setSavedApplyFn m1 name (structOf T) fn = Ok m2"
    and r: "registers ms m2 m'"
    using nm by auto
  from setSavedApplyFn_marks [OF st gen_marks [OF g]] registers_marks [OF r, of name] s
  show ?thesis by (simp add: lookupFn_def)
qed

lemma keep_marks:
  assumes ok: "fst (AddFuncMap ms W base) = Ok ()"
    and "\<exists>g. lookupFn base name = Some (Setter g) \<and> marks g name"
  shows "\<exists>g. lookupFn (snd (AddFuncMap ms W base)) name = Some (Setter g) \<and> marks g name"
proof -
  from AddFuncMap_Ok [OF ok, of "structOf W"] obtain b m' where
    b: "base = Some b" and s: "snd (AddFuncMap ms W base) = Some m'"
    and e: "b (tname (structOf W)) = None
               \<or> (\<exists>x. b (tname (structOf W)) = Some x \<and> registeredFuncMatches (TT W) x (structOf W) = Ok True)"
    and r: "registers ms (b(tname (structOf W) \<mapsto>
              Ctor (TT W) (ctor (TT W) W (structOf W) (requiredFields (fields (structOf W)) [])))) m'"
    by (auto simp: structOf_def)
  from assms(2) b obtain g where g: "b name = Some (Setter g)" "marks g name"
    by (auto simp: lookupFn_def)
  have "name \<noteq> tname (structOf W)" using e g(1) by auto
  then show ?thesis using registers_marks [OF r, of name] g s by (auto simp: lookupFn_def)
qed

lemma AddFuncMap_ctor_entry:
  assumes ok: "fst (AddFuncMap ms T base) = Ok ()"
  shows "lookupFn (snd (AddFuncMap ms T base)) (tname (structOf T))
         = Some (Ctor (TT T) (ctor (TT T) T (structOf T) (requiredFields (fields (structOf T)) [])))"
proof -
  from AddFuncMap_Ok [OF ok, of "structOf T"] obtain b m' where
    s: "snd (AddFuncMap ms T base) = Some m'"
    and r: "registers ms (b(tname (structOf T) \<mapsto>
              Ctor (TT T) (ctor (TT T) T (structOf T) (requiredFields (fields (structOf T)) [])))) m'"
    by (auto simp: structOf_def)
  show ?thesis using registers_keeps(1) [OF r, of "tname (structOf T)"] s
    by (simp add: lookupFn_def)
qed

lemma AddFuncMap_keeps_ctor:
  assumes ok: "fst (AddFuncMap ms W base) = Ok ()"
    and e: "lookupFn base k = Some (Ctor R c)"
  shows "\<exists>R' c'. lookupFn (snd (AddFuncMap ms W base)) k = Some (Ctor R' c')
           \<and> (R = TValue \<or> R' \<noteq> TValue)
           \<and> (k \<noteq> tname (structOf W) \<longrightarrow> R' = R \<and> c' = c)"
proof -
  from AddFuncMap_Ok [OF ok, of "structOf W"] obtain b m' where
    b: "base = Some b" and s: "snd (AddFuncMap ms W base) = Some m'"
    and r: "registers ms (b(tname (structOf W) \<mapsto>
              Ctor (TT W) (ctor (TT W) W (structOf W) (requiredFields (fields (structOf W)) [])))) m'"
    by (auto simp: structOf_def)
  show ?thesis
  proof (cases "k = tname (structOf W)")
    case True
    then show ?thesis using registers_keeps(1) [OF r, of k] s by (simp add: lookupFn_def)
  next
    case False
    then have "m' k = Some (Ctor R c)"
      using registers_keeps(1) [OF r, of k R c] e b by (simp add: lookupFn_def)
    then show ?thesis using s False by (simp add: lookupFn_def)
  qed
qed

lemma delete_as_filter: "AList.delete n r = filter (\<lambda>(k, v). k \<noteq> n) r"
  by (induction r) (auto simp: AList.delete_eq)

lemma applyAll_sentinel:
  assumes "\<forall>n \<in> fst ` set calls. \<exists>g. lookupFn b1 n = Some (Setter g) \<and> marks g n"
  shows "applyAll (map (\<lambda>(n, as). callSetter b1 n as) calls) (sentinel r)
         = Ok (sentinel (filter (\<lambda>(k, v). k \<notin> fst ` set calls) r))"
  using assms
proof (induction calls arbitrary: r)
  case Nil
  then show ?case by simp
next
  case (Cons c calls)
  obtain n as where c: "c = (n, as)" by (cases c)
  from Cons.prems c obtain g where g: "lookupFn b1 n = Some (Setter g)" "marks g n" by auto
  have "callSetter b1 n as (sentinel r) = Ok (sentinel (AList.delete n r))"
    using g by (simp add: callSetter_def marks_def)
  moreover have "filter (\<lambda>(k, v). k \<notin> fst ` set calls) (AList.delete n r)
        = filter (\<lambda>(k, v). k \<notin> fst ` set (c # calls)) r"
    by (auto simp: delete_as_filter c intro: filter_cong)
  ultimately show ?case using Cons.IH [of "AList.delete n r"] Cons.prems c by simp
qed

lemma map_fst_filter: "map fst (filter (\<lambda>(k, v). P k) r) = filter P (map fst r)"
  by (induction r) auto

lemma checkRequired_eq:
  assumes "\<forall>n \<in> fst ` set calls. \<exists>g. lookupFn b1 n = Some (Setter g) \<and> marks g n"
  shows "checkRequired rt required (map (\<lambda>(n, as). callSetter b1 n as) calls)
         = (if filter (\<lambda>k. k \<notin> fst ` set calls) (map fst required) \<noteq> []
            then Panic (RequiredMissing
                   (join (sort (map (\<lambda>k. tname rt @ ''.'' @ k)
                       (filter (\<lambda>k. k \<notin> fst ` set calls) (map fst required)))) '', ''
                    @ '' required but not provided''))
            else Ok ())"
  by (simp add: checkRequired_def applyAll_sentinel [OF assms] unsetKeys_sentinel map_fst_filter)

lemma requiredFields_names:
  "set (map fst (requiredFields fs r))
   = set (map fst r) \<union> set (map fname (filter (\<lambda>f. IsExported f \<and> ftag f = ''+'') fs))"
proof (induction fs arbitrary: r)
  case Nil
  then show ?case by simp
next
  case (Cons f fs)
  have "set (map fst (AList.update (fname f) True r)) = insert (fname f) (set (map fst r))"
    by (auto simp: update_keys)
  then show ?case using Cons.IH [of r] Cons.IH [of "AList.update (fname f) True r"] by auto
qed

lemma requiredFields_requiredNames:
  "set (map fst (requiredFields (fields rt) [])) = set (requiredNames rt)"
  using requiredFields_names [of "fields rt" "[]"] by (simp add: requiredNames_def)

lemma requiredFields_distinct:
  "distinct (map fst r) \<Longrightarrow> distinct (map fst (requiredFields fs r))"
  by (induction fs arbitrary: r) (auto simp: distinct_update)

lemma callCtor_registered:
  assumes ok: "fst (AddFuncMap ms T base) = Ok ()"
  shows "callCtor (snd (AddFuncMap ms T base)) (tname (structOf T)) steps
         = ctor (TT T) T (structOf T) (requiredFields (fields (structOf T)) []) steps"
  using AddFuncMap_ctor_entry [OF ok] by (simp add: callCtor_def)

lemma ctorBody_keeps_required: "snd (ctorBody T origrt rt required args) = required"
  by (simp add: ctorBody_def)

lemma runCtor_eq:
  "runCtor T origrt rt required calls = (map (ctor T origrt rt required) calls, required)"
  by (induction calls) (auto simp: ctor_def ctorBody_def)

lemma struct_not_sentinel: "Kind rt = KStruct \<Longrightarrow> rt \<noteq> fieldsAreUnsetType"
  by (auto simp: fieldsAreUnsetType_def)

lemma setSavedApplyFn_dispatch:
  assumes "fnmap name = Some (Setter dispatch)"
  shows "\<exists>g. setSavedApplyFn fnmap name typ fn = Ok (fnmap(name \<mapsto> Setter g))
          \<and> (\<forall>args t c. t \<noteq> fieldsAreUnsetType \<longrightarrow>
                g args (RV t c) = (if t = typ then fn args (RV t c) else dispatch args (RV t c)))
          \<and> (\<forall>args r. g args (sentinel r) = Ok (sentinel (AList.delete name r)))"
  using assms by (auto simp: setSavedApplyFn_def didMark_sentinel)

lemma setSavedApplyFn_own:
  assumes "setSavedApplyFn m name rt fn = Ok m'" and "rt \<noteq> fieldsAreUnsetType"
  shows "\<exists>g. m' name = Some (Setter g) \<and> (\<forall>args c. g args (RV rt c) = fn args (RV rt c))"
  using assms
  by (auto simp: setSavedApplyFn_def split: option.splits entry.splits)

lemma registers_own:
  assumes r: "registers ms m m'"
    and k: "Kind rt = KStruct" and d: "distinct (map fname (fields rt))"
    and j: "j < length (fields rt)"
    and g: "genSavedApplyFnForField ms (fields rt ! j) j (fname (fields rt ! j)) = Ok fn"
  shows "(\<exists>g. m (fname (fields rt ! j)) = Some (Setter g) \<and> (\<forall>args c. g args (RV rt c) = fn args (RV rt c)))
     \<Longrightarrow> (\<exists>g. m' (fname (fields rt ! j)) = Some (Setter g) \<and> (\<forall>args c. g args (RV rt c) = fn args (RV rt c)))"
  using r
proof (induction rule: registers.induct)
  case same
  then show ?case .
next
  case (ctor m1 rt' origrt T)
  then show ?case by auto
next
  case (setter m1 i rt' f fn' m2)
  from setter.IH [OF setter.prems] obtain g0 where
    g0: "m1 (fname (fields rt ! j)) = Some (Setter g0)"
      "\<forall>args c. g0 args (RV rt c) = fn args (RV rt c)" by blast
  show ?case
  proof (cases "fname f = fname (fields rt ! j)")
    case False
    then show ?thesis using g0 setSavedApplyFn_Ok [OF setter.hyps(7)] by auto
  next
    case True
    note ns = struct_not_sentinel [OF k]
    show ?thesis
    proof (cases "rt' = rt")
      case False
      then show ?thesis using setter.hyps(7) g0 True ns
        by (auto simp: setSavedApplyFn_def)
    next
      case same: True
      have "i = j"
        using True setter.hyps(2,3) same j d
        by (metis distinct_conv_nth length_map nth_map)
      then have "fn' = fn" using setter.hyps(3,6) g same by simp
      then show ?thesis using setter.hyps(7) g0 True ns same
        by (auto simp: setSavedApplyFn_def)
    qed
  qed
qed

lemma registered_own:
  assumes ok: "fst (AddFuncMap ms T base) = Ok ()"
    and d: "distinct (map fname (fields (structOf T)))"
    and j: "j < length (fields (structOf T))"
    and ex: "IsExported (fields (structOf T) ! j)" and ig: "ftag (fields (structOf T) ! j) \<noteq> ''-''"
  shows "ownSetter ms (snd (AddFuncMap ms T base)) (structOf T) j"
proof -
  from registered_field [OF ok j ex ig] obtain m1 fn m2 m' where
    s: "snd (AddFuncMap ms T base) = Some m'" and k: "Kind (structOf T) = KStruct"
    and g: "genSavedApplyFnForField ms (fields (structOf T) ! j) j (fname (fields (structOf T) ! j)) = Ok fn"
    and st: "setSavedApplyFn m1 (fname (fields (structOf T) ! j)) (structOf T) fn = Ok m2"
    and r: "registers ms m2 m'"
    by auto
  from registers_own [OF r k d j g] setSavedApplyFn_own [OF st struct_not_sentinel [OF k]] s g
  show ?thesis by (auto simp: ownSetter_def lookupFn_def)
qed

lemma keeps_own:
  assumes ok: "fst (AddFuncMap ms W base) = Ok ()"
    and k: "Kind rt = KStruct" and d: "distinct (map fname (fields rt))"
    and j: "j < length (fields rt)"
    and o: "ownSetter ms base rt j"
  shows "ownSetter ms (snd (AddFuncMap ms W base)) rt j"
proof -
  from AddFuncMap_Ok [OF ok, of "structOf W"] obtain b m' where
    b: "base = Some b" and s: "snd (AddFuncMap ms W base) = Some m'"
    and e: "b (tname (structOf W)) = None
               \<or> (\<exists>x. b (tname (structOf W)) = Some x \<and> registeredFuncMatches (TT W) x (structOf W) = Ok True)"
    and r: "registers ms (b(tname (structOf W) \<mapsto>
              Ctor (TT W) (ctor (TT W) W (structOf W) (requiredFields (fields (structOf W)) [])))) m'"
    by (auto simp: structOf_def)
  from o b obtain g fn where g: "b (fname (fields rt ! j)) = Some (Setter g)"
    and gen: "genSavedApplyFnForField ms (fields rt ! j) j (fname (fields rt ! j)) = Ok fn"
    and eq: "\<forall>args c. g args (RV rt c) = fn args (RV rt c)"
    by (auto simp: ownSetter_def lookupFn_def)
  have ne: "fname (fields rt ! j) \<noteq> tname (structOf W)" using e g by auto
  from registers_own [OF r k d j gen] g eq ne s gen
  show ?thesis by (auto simp: ownSetter_def lookupFn_def)
qed

section \<open>The effect of the setters on a field\<close>

lemma AssignableTo_refl: "AssignableTo t t"
  by (simp add: AssignableTo_def directlyAssignable_def)

lemma retag_same: "typeOf c = t \<Longrightarrow> c \<noteq> VNil \<Longrightarrow> retag t c = c"
  by (cases c) auto

lemma AppendSlice_same:
  assumes "Kind ft = KSlice"
  shows "\<exists>m. AppendSlice (RV ft (VSlice ft old)) (RV ft (VSlice tg ys)) = Ok (RV ft (VSlice ft m))
           \<and> sliceElems (VSlice ft m) = sliceElems (VSlice ft old) @ sliceElems (VSlice tg ys)"
  using assms by (cases old; cases ys) (auto split: list.splits)

lemma fieldSet_same_type:
  assumes "Kind rt = KStruct" and "i < length (fields rt)" and "i < length vs"
    and "IsExported (fields rt ! i)" and "ftype (fields rt ! i) = ft" and "Kind ft \<noteq> KInterface"
    and "typeOf c = ft" and "c \<noteq> VNil"
  shows "fieldSet (RV rt (VStruct s vs)) i (RV ft c) = Ok (RV rt (VStruct s (vs[i := c])))"
  using assms by (simp add: directlyAssignable_def retag_same)

lemma appendArgs_spliced:
  assumes k: "Kind rt = KStruct" and i: "i < length (fields rt)"
    and ex: "IsExported (fields rt ! i)" and ft: "ftype (fields rt ! i) = ft" and ks: "Kind ft = KSlice"
    and "i < length vs" and "vs ! i = VSlice ft old" and "splicedArgs ft dv = Some xs"
  shows "\<exists>new. appendArgs (RV rt (VStruct s vs)) i dv = Ok (RV rt (VStruct s (vs[i := VSlice ft new])))
           \<and> sliceElems (VSlice ft new) = sliceElems (VSlice ft old) @ xs"
  using assms(6-8)
proof (induction dv arbitrary: vs old xs)
  case Nil
  have "vs[i := VSlice ft old] = vs" using Nil.prems(2) by (metis list_update_id)
  then show ?case using Nil.prems(3) by (intro exI [of _ old]) simp
next
  case (Cons a dv)
  from Cons.prems(3) obtain t c where a: "a = RV t c" by (cases a) auto
  from Cons.prems(3) a obtain rest where rest: "splicedArgs ft dv = Some rest"
    by (auto split: option.splits)
  have f: "FieldByIndex (RV rt (VStruct s vs)) i = Ok (RV ft (VSlice ft old))"
    using k i ft Cons.prems(1,2) by simp
  have ni: "Kind ft \<noteq> KInterface" using ks by simp
  have step: "\<exists>m. bind (if AssignableTo t ft then AppendSlice (RV ft (VSlice ft old)) (RV t c)
                          else Append (RV ft (VSlice ft old)) (RV t c))
                       (fieldSet (RV rt (VStruct s vs)) i)
                   = Ok (RV rt (VStruct s (vs[i := VSlice ft m])))
              \<and> sliceElems (VSlice ft m) @ rest = sliceElems (VSlice ft old) @ xs"
  proof (cases "t = ft")
    case True
    with Cons.prems(3) a rest obtain tg ys where c: "c = VSlice tg ys" and xs: "xs = sliceElems c @ rest"
      by (auto split: val.splits)
    from AppendSlice_same [OF ks, of old tg ys] obtain m where
      m: "AppendSlice (RV ft (VSlice ft old)) (RV ft (VSlice tg ys)) = Ok (RV ft (VSlice ft m))"
        "sliceElems (VSlice ft m) = sliceElems (VSlice ft old) @ sliceElems (VSlice tg ys)"
      by blast
    have "fieldSet (RV rt (VStruct s vs)) i (RV ft (VSlice ft m))
            = Ok (RV rt (VStruct s (vs[i := VSlice ft m])))"
      using fieldSet_same_type [OF k i Cons.prems(1) ex ft ni] by simp
    then show ?thesis using True c xs m AssignableTo_refl [of ft] by (intro exI [of _ m]) simp
  next
    case False
    with Cons.prems(3) a rest obtain x where na: "\<not> AssignableTo t ft"
      and x: "assignTo (RV t c) (elemT ft) = Ok x" and xs: "xs = x # rest"
      by (auto split: if_splits res.splits)
    let ?m = "Some ((case old of None \<Rightarrow> [] | Some us \<Rightarrow> us) @ [x])"
    have "Append (RV ft (VSlice ft old)) (RV t c) = Ok (RV ft (VSlice ft ?m))"
      using ks x by simp
    moreover have "fieldSet (RV rt (VStruct s vs)) i (RV ft (VSlice ft ?m))
            = Ok (RV rt (VStruct s (vs[i := VSlice ft ?m])))"
      using fieldSet_same_type [OF k i Cons.prems(1) ex ft ni] by simp
    moreover have "sliceElems (VSlice ft ?m) @ rest = sliceElems (VSlice ft old) @ xs"
      using xs by (cases old) auto
    ultimately show ?thesis using na by (intro exI [of _ ?m]) simp
  qed
  then obtain m where m: "bind (if AssignableTo t ft then AppendSlice (RV ft (VSlice ft old)) (RV t c)
                          else Append (RV ft (VSlice ft old)) (RV t c))
                       (fieldSet (RV rt (VStruct s vs)) i)
                   = Ok (RV rt (VStruct s (vs[i := VSlice ft m])))"
    and e: "sliceElems (VSlice ft m) @ rest = sliceElems (VSlice ft old) @ xs" by blast
  from m obtain f' where f': "(if AssignableTo t ft then AppendSlice (RV ft (VSlice ft old)) (RV t c)
                          else Append (RV ft (VSlice ft old)) (RV t c)) = Ok f'"
    and fs: "fieldSet (RV rt (VStruct s vs)) i f' = Ok (RV rt (VStruct s (vs[i := VSlice ft m])))"
    by (auto simp: bind_eq_Ok)
  from Cons.IH [of "vs[i := VSlice ft m]" m rest] Cons.prems(1) rest obtain new where
    n: "appendArgs (RV rt (VStruct s (vs[i := VSlice ft m]))) i dv
          = Ok (RV rt (VStruct s (vs[i := VSlice ft new])))"
    and ne: "sliceElems (VSlice ft new) = sliceElems (VSlice ft m) @ rest"
    by auto
  have "appendArgs (RV rt (VStruct s vs)) i (a # dv) = Ok (RV rt (VStruct s (vs[i := VSlice ft new])))"
    using a f f' fs n by simp
  then show ?case using ne e by auto
qed

lemma sliceApply_spliced:
  assumes k: "Kind rt = KStruct" and i: "i < length (fields rt)" and iv: "i < length vs"
    and ex: "IsExported (fields rt ! i)" and ft: "ftype (fields rt ! i) = ft" and ks: "Kind ft = KSlice"
    and old: "vs ! i = VSlice ft old"
    and dv: "devirtAll args = Ok dv" and xs: "splicedArgs ft dv = Some xs"
  shows "\<exists>new. sliceApply i name args (RV rt (VStruct s vs))
                  = Ok (RV rt (VStruct s (vs[i := VSlice ft new])))
           \<and> sliceElems (VSlice ft new) = sliceElems (vs ! i) @ xs"
proof -
  have ns: "rt \<noteq> fieldsAreUnsetType" using struct_not_sentinel [OF k] .
  have f: "FieldByIndex (RV rt (VStruct s vs)) i = Ok (RV ft (VSlice ft old))"
    using k i iv ft old by simp
  have "sliceApply i name args (RV rt (VStruct s vs)) = appendArgs (RV rt (VStruct s vs)) i dv"
    unfolding sliceApply_def using ns f dv by simp
  then show ?thesis using appendArgs_spliced [OF k i ex ft ks iv old xs, of s] old by simp
qed

lemma map_of_fold_update:
  "map_of (fold (\<lambda>(k, e). AList.update k e) ps l) = map_of l ++ map_of (rev ps)"
proof (induction ps arbitrary: l)
  case Nil
  then show ?case by simp
next
  case (Cons p ps)
  obtain k e where p: "p = (k, e)" by (cases p)
  have "map_of (AList.update k e l) ++ map_of (rev ps) = map_of l ++ map_of (rev ps @ [(k, e)])"
    by (simp add: update_conv' map_add_upd_left fun_eq_iff map_add_def split: option.splits)
  then show ?case using Cons.IH [of "AList.update k e l"] p by simp
qed

lemma assignTo_valid: "assignTo e t = Ok c \<Longrightarrow> \<exists>st v. e = RV st v"
  by (cases e) auto

lemma setAll_stored:
  assumes "Kind ft = KMap" and "storedEntries ft kes = Some ps"
  shows "setAll (RV ft (VMap s (Some l))) kes
         = Ok (RV ft (VMap s (Some (fold (\<lambda>(k, e). AList.update k e) ps l))))"
  using assms(2)
proof (induction kes arbitrary: l ps)
  case Nil
  then show ?case by simp
next
  case (Cons p kes)
  obtain k e where p: "p = (k, e)" by (cases p)
  from Cons.prems p obtain kc ec rest where
    kc: "assignTo k (keyT ft) = Ok kc" and ec: "assignTo e (elemT ft) = Ok ec"
    and h: "hashable kc" and rest: "storedEntries ft kes = Some rest" and ps: "ps = (kc, ec) # rest"
    by (auto split: res.splits if_splits)
  from assignTo_valid [OF ec] obtain st v where e: "e = RV st v" by blast
  have "SetMapIndex (RV ft (VMap s (Some l))) k e = Ok (RV ft (VMap s (Some (AList.update kc ec l))))"
    using assms(1) kc ec h e by simp
  then show ?case using Cons.IH [OF rest, of "AList.update kc ec l"] p ps by simp
qed

lemma setPairs_as_setAll:
  assumes "devirtAll args = Ok dv" and "pairsOf dv = Some kes"
  shows "setPairs f args = setAll f kes"
  using assms
proof (induction f args arbitrary: dv kes rule: setPairs.induct)
  case (1 f k e rest)
  from "1.prems"(1) obtain k' e' dv' where
    k: "devirt k = Ok k'" and e: "devirt e = Ok e'" and r: "devirtAll rest = Ok dv'"
    and dv: "dv = k' # e' # dv'"
    by (auto simp: bind_eq_Ok)
  from "1.prems"(2) dv obtain kes' where p: "pairsOf dv' = Some kes'" and kes: "kes = (k', e') # kes'"
    by auto
  show ?case
  proof (cases "SetMapIndex f k' e'")
    case (Ok f')
    then show ?thesis using "1.IH" [OF r p] k e kes by simp
  qed (use k e kes in auto)
next
  case "2_1"
  then show ?case by auto
next
  case "2_2"
  then show ?case by (auto simp: bind_eq_Ok)
qed

lemma mapApply_allocated:
  assumes k: "Kind rt = KStruct" and i: "i < length (fields rt)" and iv: "i < length vs"
    and ex: "IsExported (fields rt ! i)" and ft: "ftype (fields rt ! i) = ft" and km: "Kind ft = KMap"
    and old: "vs ! i = VMap ft old"
  shows "mapApply i name args (RV rt (VStruct s vs)) =
     bind (if length args = 1
           then bind (devirt (args ! 0)) (\<lambda>arg.
                bind (rvType arg) (\<lambda>typ.
                  if Kind typ \<noteq> KMap then Ok None
                  else if AssignableTo (keyT typ) (keyT ft) \<and> AssignableTo (elemT typ) (elemT ft)
                    then bind (setAll (RV ft (VMap ft (Some (mapEntries (vs ! i))))) (MapRange arg))
                           (\<lambda>f'. Ok (Some f'))
                  else Ok None))
           else Ok None) (\<lambda>copied.
       case copied of
         Some f' \<Rightarrow> putField (RV rt (VStruct s (vs[i := VMap ft (Some (mapEntries (vs ! i)))]))) i f'
       | None \<Rightarrow>
           if odd (length args) then Panic (OddArgs name (length args))
           else bind (setPairs (RV ft (VMap ft (Some (mapEntries (vs ! i))))) args)
                  (putField (RV rt (VStruct s (vs[i := VMap ft (Some (mapEntries (vs ! i)))]))) i))"
proof -
  have ns: "rt \<noteq> fieldsAreUnsetType" using struct_not_sentinel [OF k] .
  have f0: "FieldByIndex (RV rt (VStruct s vs)) i = Ok (RV ft (VMap ft old))"
    using k i iv ft old by simp
  have ni: "Kind ft \<noteq> KInterface" using km by simp
  show ?thesis
  proof (cases old)
    case None
    have fs: "fieldSet (RV rt (VStruct s vs)) i (RV ft (VMap ft (Some [])))
          = Ok (RV rt (VStruct s (vs[i := VMap ft (Some [])])))"
      using fieldSet_same_type [OF k i iv ex ft ni] by simp
    have f1: "FieldByIndex (RV rt (VStruct s (vs[i := VMap ft (Some [])]))) i
          = Ok (RV ft (VMap ft (Some [])))"
      using k i iv ft by simp
    show ?thesis
      unfolding mapApply_def
      using ns f0 fs f1 None old km ni by (simp cong: if_cong)
  next
    case (Some l)
    have same: "vs[i := VMap ft (Some l)] = vs" using old Some by (metis list_update_id)
    show ?thesis
      unfolding mapApply_def
      using ns f0 Some old km ni same by (simp cong: if_cong)
  qed
qed

lemma putField_struct:
  "putField (RV rt (VStruct s vs)) i (RV t c) = Ok (RV rt (VStruct s (vs[i := c])))"
  by simp

section \<open>Registration is transactional\<close>

text \<open>
  C2: whenever \<^verbatim>\<open>AddFuncMap[T](base)\<close> returns a non-nil error, whatever the reason, the map
  \<open>base\<close> is after the call what it was before it.
\<close>

theorem AddFuncMap_error_base_unmodified:
  "fst (AddFuncMap ms T base) = Err e \<Longrightarrow> snd (AddFuncMap ms T base) = base"
  by (auto simp: AddFuncMap_def Let_def split: option.splits if_splits res.splits)

theorem AddFuncMap_error_base_unmodified_witness:
  "fst (AddFuncMap noMethods tagX (Some [''F'' \<mapsto> Other])) = Err (ConflictSetter ''F'')
   \<and> snd (AddFuncMap noMethods tagX (Some [''F'' \<mapsto> Other])) = Some [''F'' \<mapsto> Other]"
proof -
  have h: "fst (AddFuncMap noMethods tagX (Some [''F'' \<mapsto> Other])) = Err (ConflictSetter ''F'')"
    by code_simp
  show ?thesis using h AddFuncMap_error_base_unmodified [OF h] by simp
qed

section \<open>Struct tags\<close>

text \<open>
  C9, as stated: a field whose \<^verbatim>\<open>tstruct\<close> tag is neither \<^verbatim>\<open>-\<close> nor \<^verbatim>\<open>+\<close> makes the
  registration of its struct fail. It does not: the struct \<open>tagX\<close>, whose field carries the
  tag \<^verbatim>\<open>x\<close>, is registered without error.
\<close>

theorem unknown_tag_counterexample:
  "ftag (hd (fields tagX)) \<noteq> ''-'' \<and> ftag (hd (fields tagX)) \<noteq> ''+''
   \<and> fst (AddFuncMap noMethods tagX (Some Map.empty)) = Ok ()"
  by code_simp

text \<open>
  C9, amended: a field whose \<^verbatim>\<open>tstruct\<close> tag is neither \<^verbatim>\<open>-\<close> nor \<^verbatim>\<open>+\<close> is
  registered exactly as the same field without a tag: the loop over the fields gives the same
  outcome and the same FuncMap, and the field is not required.
\<close>

theorem unknown_tag_as_untagged:
  assumes "g \<noteq> ''-''" and "g \<noteq> ''+''"
  shows "addFieldFuncs ms rt i (SField n p g t # fs) m
           = addFieldFuncs ms rt i (SField n p '''' t # fs) m
         \<and> requiredFields (SField n p g t # fs) r = requiredFields (SField n p '''' t # fs) r"
proof -
  have gen: "genSavedApplyFnForField ms (SField n p g t) i n
             = genSavedApplyFnForField ms (SField n p '''' t) i n"
    by (simp add: genSavedApplyFnForField_def cong: option.case_cong kind.case_cong if_cong)
  have "addFieldFuncs ms rt i (SField n p g t # fs) m
        = addFieldFuncs ms rt i (SField n p '''' t # fs) m"
    using assms by (simp add: IsExported_def gen cong: kind.case_cong if_cong)
  moreover have "requiredFields (SField n p g t # fs) r = requiredFields (SField n p '''' t # fs) r"
    using assms by (simp add: IsExported_def)
  ultimately show ?thesis by simp
qed

theorem unknown_tag_as_untagged_witness:
  "''x'' \<noteq> ''-'' \<and> ''x'' \<noteq> ''+''
   \<and> addFieldFuncs noMethods tagX 0 [SField ''F'' '''' ''x'' TInt] Map.empty
       = addFieldFuncs noMethods tagX 0 [SField ''F'' '''' '''' TInt] Map.empty
   \<and> requiredFields [SField ''F'' '''' ''x'' TInt] [] = requiredFields [SField ''F'' '''' '''' TInt] []"
proof -
  have a: "''x'' \<noteq> ''-''" and b: "''x'' \<noteq> ''+''" by simp_all
  show ?thesis
    using a b unknown_tag_as_untagged [OF a b, of noMethods tagX 0 "''F''" "''''" TInt "[]" Map.empty "[]"]
    by simp
qed

section \<open>Registering a struct again\<close>

text \<open>
  C5: registering a struct that is already registered, directly or through a struct that
  contains it, succeeds in either order. The code calls the registered constructor without
  arguments to look at the type of what it builds; a constructor of a struct with a required
  field panics on that call. So with \<open>reqA\<close> registered, registering \<open>wrapA\<close> panics,
  and so does registering \<open>reqA\<close> after \<open>wrapA\<close>.
\<close>

theorem reregister_required_struct_panics:
  "fst (AddFuncMap noMethods reqA (Some Map.empty)) = Ok ()
   \<and> fst (AddFuncMap noMethods wrapA (snd (AddFuncMap noMethods reqA (Some Map.empty))))
       = Panic (RequiredMissing ''A.F required but not provided'')
   \<and> fst (AddFuncMap noMethods wrapA (Some Map.empty)) = Ok ()
   \<and> fst (AddFuncMap noMethods reqA (snd (AddFuncMap noMethods wrapA (Some Map.empty))))
       = Panic (RequiredMissing ''A.F required but not provided'')"
  by code_simp

section \<open>The constructor stored under the name of a struct\<close>

text \<open>
  C10: after \<^verbatim>\<open>AddFuncMap[T](base)\<close> has succeeded, the entry under the name of the struct
  is a constructor of the concrete result type \<open>T\<close>. A later successful registration
  \<^verbatim>\<open>AddFuncMap[W]\<close> leaves a concretely typed constructor there, and when \<open>W\<close> is a struct
  of another name, which can reach the struct of \<open>T\<close> only through its fields and so through
  the instantiation at \<^verbatim>\<open>reflect.Value\<close>, it leaves the very same entry. In the other order
  the first statement applies to the registration of \<open>T\<close>, which comes last.
\<close>

theorem ctor_entry_stays_concrete:
  assumes "fst (AddFuncMap ms T base) = Ok ()"
  shows "(\<exists>c. lookupFn (snd (AddFuncMap ms T base)) (tname (structOf T)) = Some (Ctor (TT T) c))
    \<and> (fst (AddFuncMap ms W (snd (AddFuncMap ms T base))) = Ok () \<longrightarrow>
         (\<exists>T' c. lookupFn (snd (AddFuncMap ms W (snd (AddFuncMap ms T base)))) (tname (structOf T))
                   = Some (Ctor (TT T') c))
       \<and> (tname (structOf W) \<noteq> tname (structOf T) \<longrightarrow>
            lookupFn (snd (AddFuncMap ms W (snd (AddFuncMap ms T base)))) (tname (structOf T))
              = lookupFn (snd (AddFuncMap ms T base)) (tname (structOf T))))"
proof -
  note e = AddFuncMap_ctor_entry [OF assms]
  have "\<exists>T' c. lookupFn (snd (AddFuncMap ms W (snd (AddFuncMap ms T base)))) (tname (structOf T))
                   = Some (Ctor (TT T') c)"
    and "tname (structOf W) \<noteq> tname (structOf T) \<Longrightarrow>
            lookupFn (snd (AddFuncMap ms W (snd (AddFuncMap ms T base)))) (tname (structOf T))
              = lookupFn (snd (AddFuncMap ms T base)) (tname (structOf T))"
    if w: "fst (AddFuncMap ms W (snd (AddFuncMap ms T base))) = Ok ()"
    using AddFuncMap_keeps_ctor [OF w e] e by (auto, metis tparam.exhaust)
  then show ?thesis using e by blast
qed

theorem ctor_entry_stays_concrete_witness:
  "fst (AddFuncMap noMethods plainS (Some Map.empty)) = Ok ()
   \<and> fst (AddFuncMap noMethods wrapS (snd (AddFuncMap noMethods plainS (Some Map.empty)))) = Ok ()
   \<and> tname (structOf wrapS) \<noteq> tname (structOf plainS)
   \<and> (\<exists>c. lookupFn (snd (AddFuncMap noMethods wrapS (snd (AddFuncMap noMethods plainS (Some Map.empty)))))
              ''S'' = Some (Ctor (TT plainS) c))
   \<and> fst (AddFuncMap noMethods wrapS (Some Map.empty)) = Ok ()
   \<and> fst (AddFuncMap noMethods plainS (snd (AddFuncMap noMethods wrapS (Some Map.empty)))) = Ok ()
   \<and> (\<exists>c. lookupFn (snd (AddFuncMap noMethods plainS (snd (AddFuncMap noMethods wrapS (Some Map.empty)))))
              ''S'' = Some (Ctor (TT plainS) c))"
proof -
  have a: "fst (AddFuncMap noMethods plainS (Some Map.empty)) = Ok ()" by code_simp
  have b: "fst (AddFuncMap noMethods wrapS (snd (AddFuncMap noMethods plainS (Some Map.empty)))) = Ok ()"
    by code_simp
  have n: "tname (structOf wrapS) \<noteq> tname (structOf plainS)" by code_simp
  have s: "tname (structOf plainS) = ''S''" by code_simp
  have c: "fst (AddFuncMap noMethods wrapS (Some Map.empty)) = Ok ()" by code_simp
  have d: "fst (AddFuncMap noMethods plainS (snd (AddFuncMap noMethods wrapS (Some Map.empty)))) = Ok ()"
    by code_simp
  show ?thesis
    using a b n c d
      ctor_entry_stays_concrete [OF a, of wrapS]
      ctor_entry_stays_concrete [OF d, of wrapS]
    by (simp add: s)
qed

section \<open>Required fields\<close>

text \<open>
  C3: a struct is registered and its constructor is called with the apply steps of calls of
  its field functions. The required fields whose function was not called are \<open>missing\<close>.
  If there are any, the constructor panics with one message: the missing fields, each as
  \<^verbatim>\<open>StructName.FieldName\<close>, sorted, joined with a comma and a blank, followed by
  \<^verbatim>\<open>required but not provided\<close>. If there are none, the construction goes on: its outcome is
  that of applying the steps to the new instance.
\<close>

theorem missing_required_fields_reported:
  assumes ok: "fst (AddFuncMap ms T base) = Ok ()"
    and calls: "fst ` set calls \<subseteq> setterNames (structOf T)"
    and missing: "missing = filter (\<lambda>k. k \<notin> fst ` set calls)
                      (map fst (requiredFields (fields (structOf T)) []))"
    and steps: "steps = map (\<lambda>(n, as). callSetter (snd (AddFuncMap ms T base)) n as) calls"
  shows "set missing = set (requiredNames (structOf T)) - fst ` set calls
    \<and> distinct missing
    \<and> callCtor (snd (AddFuncMap ms T base)) (tname (structOf T)) steps
        = (if missing \<noteq> []
           then Panic (RequiredMissing
                  (join (sort (map (\<lambda>k. tname (structOf T) @ ''.'' @ k) missing)) '', ''
                   @ '' required but not provided''))
           else bind (applyAll steps (RV (structOf T) (zero (structOf T)))) (ctorReturn (TT T) T))"
proof -
  let ?b1 = "snd (AddFuncMap ms T base)"
  let ?rt = "structOf T"
  let ?req = "requiredFields (fields ?rt) []"
  have m: "\<forall>n \<in> fst ` set calls. \<exists>g. lookupFn ?b1 n = Some (Setter g) \<and> marks g n"
    using registered_setter_marks [OF ok] calls by blast
  have 1: "set missing = set (requiredNames ?rt) - fst ` set calls"
    using requiredFields_requiredNames [of ?rt] by (auto simp: missing)
  have 2: "distinct missing"
    using requiredFields_distinct [of "[]" "fields ?rt"] by (simp add: missing)
  have 3: "callCtor ?b1 (tname ?rt) steps
        = (if missing \<noteq> []
           then Panic (RequiredMissing
                  (join (sort (map (\<lambda>k. tname ?rt @ ''.'' @ k) missing)) '', ''
                   @ '' required but not provided''))
           else bind (applyAll steps (RV ?rt (zero ?rt))) (ctorReturn (TT T) T))"
    unfolding callCtor_registered [OF ok] ctor_def ctorBody_def fst_conv
      steps checkRequired_eq [OF m] missing
    by simp
  show ?thesis using 1 2 3 by blast
qed

theorem missing_required_fields_reported_witness:
  "fst (AddFuncMap noMethods reqR (Some Map.empty)) = Ok ()
   \<and> callCtor (snd (AddFuncMap noMethods reqR (Some Map.empty))) ''R''
        (map (\<lambda>(n, as). callSetter (snd (AddFuncMap noMethods reqR (Some Map.empty))) n as)
           [(''ReqSlice'', [vint 1])])
       = Panic (RequiredMissing ''R.ReqInt, R.ReqMap required but not provided'')
   \<and> callCtor (snd (AddFuncMap noMethods reqR (Some Map.empty))) ''R''
        (map (\<lambda>(n, as). callSetter (snd (AddFuncMap noMethods reqR (Some Map.empty))) n as)
           [(''ReqMap'', [vstr ''a'', vint 1]), (''ReqSlice'', [vint 1]), (''ReqInt'', [vint 1])])
       = Ok (RV reqR (VStruct reqR
           [VString TString '''', VInt TInt 1, VSlice (TSlice TInt) (Some [VInt TInt 1]),
            VMap (TMap TString TInt) (Some [(VString TString ''a'', VInt TInt 1)])]))"
proof -
  have ok: "fst (AddFuncMap noMethods reqR (Some Map.empty)) = Ok ()" by code_simp
  have n: "tname (structOf reqR) = ''R''" by code_simp
  have c1: "fst ` set [(''ReqSlice'', [vint 1])] \<subseteq> setterNames (structOf reqR)"
    by code_simp
  have c2: "fst ` set [(''ReqMap'', [vstr ''a'', vint 1]), (''ReqSlice'', [vint 1]), (''ReqInt'', [vint 1])]
            \<subseteq> setterNames (structOf reqR)"
    by code_simp
  have m1: "filter (\<lambda>k. k \<notin> fst ` set [(''ReqSlice'', [vint 1])])
              (map fst (requiredFields (fields (structOf reqR)) [])) = [''ReqInt'', ''ReqMap'']"
    by code_simp
  have m2: "filter (\<lambda>k. k \<notin> fst ` set [(''ReqMap'', [vstr ''a'', vint 1]), (''ReqSlice'', [vint 1]), (''ReqInt'', [vint 1])])
              (map fst (requiredFields (fields (structOf reqR)) [])) = []"
    by code_simp
  note t1 = missing_required_fields_reported [OF ok c1 m1 [symmetric] refl,
      THEN conjunct2, THEN conjunct2, unfolded n]
  note t2 = missing_required_fields_reported [OF ok c2 m2 [symmetric] refl,
      THEN conjunct2, THEN conjunct2, unfolded n]
  have r1: "callCtor (snd (AddFuncMap noMethods reqR (Some Map.empty))) ''R''
        (map (\<lambda>(n, as). callSetter (snd (AddFuncMap noMethods reqR (Some Map.empty))) n as)
           [(''ReqSlice'', [vint 1])])
       = Panic (RequiredMissing ''R.ReqInt, R.ReqMap required but not provided'')"
    unfolding t1 by code_simp
  have r2: "callCtor (snd (AddFuncMap noMethods reqR (Some Map.empty))) ''R''
        (map (\<lambda>(n, as). callSetter (snd (AddFuncMap noMethods reqR (Some Map.empty))) n as)
           [(''ReqMap'', [vstr ''a'', vint 1]), (''ReqSlice'', [vint 1]), (''ReqInt'', [vint 1])])
       = Ok (RV reqR (VStruct reqR
           [VString TString '''', VInt TInt 1, VSlice (TSlice TInt) (Some [VInt TInt 1]),
            VMap (TMap TString TInt) (Some [(VString TString ''a'', VInt TInt 1)])]))"
    unfolding t2 by code_simp
  show ?thesis using ok r1 r2 by blast
qed

text \<open>
  C8: whether a required field counts as provided depends on the call of its field function
  alone. Called with the sentinel map of a constructor, the apply step of a field function
  deletes the name of its field whatever the arguments of the call were, and the check of the
  constructor passes exactly when the function of every required field was called.
\<close>

theorem presence_is_setter_invocation:
  assumes ok: "fst (AddFuncMap ms T base) = Ok ()"
    and calls: "fst ` set calls \<subseteq> setterNames (structOf T)"
  shows "(\<forall>n \<in> setterNames (structOf T). \<forall>args r.
            callSetter (snd (AddFuncMap ms T base)) n args (sentinel r)
              = Ok (sentinel (AList.delete n r)))
    \<and> (checkRequired (structOf T) (requiredFields (fields (structOf T)) [])
           (map (\<lambda>(n, as). callSetter (snd (AddFuncMap ms T base)) n as) calls) = Ok ()
         \<longleftrightarrow> set (requiredNames (structOf T)) \<subseteq> fst ` set calls)"
proof -
  let ?b1 = "snd (AddFuncMap ms T base)"
  let ?rt = "structOf T"
  have 1: "callSetter ?b1 n args (sentinel r) = Ok (sentinel (AList.delete n r))"
    if "n \<in> setterNames ?rt" for n args r
    using registered_setter_marks [OF ok that] by (auto simp: callSetter_def marks_def)
  have m: "\<forall>n \<in> fst ` set calls. \<exists>g. lookupFn ?b1 n = Some (Setter g) \<and> marks g n"
    using registered_setter_marks [OF ok] calls by blast
  have "filter (\<lambda>k. k \<notin> fst ` set calls) (map fst (requiredFields (fields ?rt) [])) = []
        \<longleftrightarrow> set (requiredNames ?rt) \<subseteq> fst ` set calls"
    using requiredFields_requiredNames [of ?rt] by (auto simp: filter_empty_conv)
  then have 2: "checkRequired ?rt (requiredFields (fields ?rt) [])
           (map (\<lambda>(n, as). callSetter ?b1 n as) calls) = Ok ()
         \<longleftrightarrow> set (requiredNames ?rt) \<subseteq> fst ` set calls"
    unfolding checkRequired_eq [OF m] by simp
  show ?thesis using 1 2 by blast
qed

theorem presence_is_setter_invocation_witness:
  "fst (AddFuncMap noMethods reqR (Some Map.empty)) = Ok ()
   \<and> fst ` set [(''ReqInt'', [vint 0]), (''ReqSlice'', []), (''ReqMap'', [])]
        \<subseteq> setterNames (structOf reqR)
   \<and> checkRequired (structOf reqR) (requiredFields (fields (structOf reqR)) [])
        (map (\<lambda>(n, as). callSetter (snd (AddFuncMap noMethods reqR (Some Map.empty))) n as)
           [(''ReqInt'', [vint 0]), (''ReqSlice'', []), (''ReqMap'', [])]) = Ok ()
   \<and> callCtor (snd (AddFuncMap noMethods reqR (Some Map.empty))) ''R''
        (map (\<lambda>(n, as). callSetter (snd (AddFuncMap noMethods reqR (Some Map.empty))) n as)
           [(''ReqInt'', [vint 0]), (''ReqSlice'', []), (''ReqMap'', [])])
       = Ok (RV reqR (VStruct reqR
           [VString TString '''', VInt TInt 0, VSlice (TSlice TInt) None,
            VMap (TMap TString TInt) (Some [])]))
   \<and> checkRequired (structOf reqR) (requiredFields (fields (structOf reqR)) [])
        (map (\<lambda>(n, as). callSetter (snd (AddFuncMap noMethods reqR (Some Map.empty))) n as)
           [(''ReqSlice'', [vint 5]), (''ReqMap'', [vstr ''a'', vint 1])]) \<noteq> Ok ()"
proof -
  have ok: "fst (AddFuncMap noMethods reqR (Some Map.empty)) = Ok ()" by code_simp
  have c1: "fst ` set [(''ReqInt'', [vint 0]), (''ReqSlice'', []), (''ReqMap'', [])]
              \<subseteq> setterNames (structOf reqR)"
    by code_simp
  have c2: "fst ` set [(''ReqSlice'', [vint 5]), (''ReqMap'', [vstr ''a'', vint 1])]
              \<subseteq> setterNames (structOf reqR)"
    by code_simp
  note t1 = presence_is_setter_invocation [OF ok c1, THEN conjunct2]
  note t2 = presence_is_setter_invocation [OF ok c2, THEN conjunct2]
  have r1: "checkRequired (structOf reqR) (requiredFields (fields (structOf reqR)) [])
        (map (\<lambda>(n, as). callSetter (snd (AddFuncMap noMethods reqR (Some Map.empty))) n as)
           [(''ReqInt'', [vint 0]), (''ReqSlice'', []), (''ReqMap'', [])]) = Ok ()"
    unfolding t1 by code_simp
  have r2: "checkRequired (structOf reqR) (requiredFields (fields (structOf reqR)) [])
        (map (\<lambda>(n, as). callSetter (snd (AddFuncMap noMethods reqR (Some Map.empty))) n as)
           [(''ReqSlice'', [vint 5]), (''ReqMap'', [vstr ''a'', vint 1])]) \<noteq> Ok ()"
    unfolding t2 by code_simp
  have r3: "callCtor (snd (AddFuncMap noMethods reqR (Some Map.empty))) ''R''
        (map (\<lambda>(n, as). callSetter (snd (AddFuncMap noMethods reqR (Some Map.empty))) n as)
           [(''ReqInt'', [vint 0]), (''ReqSlice'', []), (''ReqMap'', [])])
       = Ok (RV reqR (VStruct reqR
           [VString TString '''', VInt TInt 0, VSlice (TSlice TInt) None,
            VMap (TMap TString TInt) (Some [])]))"
    by code_simp
  show ?thesis using ok c1 r1 r2 r3 by blast
qed

text \<open>
  C4: the constructor closure of a registered struct is called twice, one call after the
  other, the second starting from the captured map of required fields as the first left it.
  Each call has the outcome it has on its own, in either order, and the captured map is
  afterwards what it was.
\<close>

theorem constructor_calls_share_no_state:
  assumes ok: "fst (AddFuncMap ms T base) = Ok ()"
  shows "runCtor (TT T) T (structOf T) (requiredFields (fields (structOf T)) []) [args1, args2]
         = ([callCtor (snd (AddFuncMap ms T base)) (tname (structOf T)) args1,
             callCtor (snd (AddFuncMap ms T base)) (tname (structOf T)) args2],
            requiredFields (fields (structOf T)) [])
    \<and> runCtor (TT T) T (structOf T) (requiredFields (fields (structOf T)) []) [args2, args1]
         = ([callCtor (snd (AddFuncMap ms T base)) (tname (structOf T)) args2,
             callCtor (snd (AddFuncMap ms T base)) (tname (structOf T)) args1],
            requiredFields (fields (structOf T)) [])"
  by (simp add: runCtor_eq callCtor_registered [OF ok])

theorem constructor_calls_share_no_state_witness:
  "fst (AddFuncMap noMethods reqX (Some Map.empty)) = Ok ()
   \<and> fst (runCtor (TT reqX) reqX (structOf reqX) (requiredFields (fields (structOf reqX)) [])
        [[callSetter (snd (AddFuncMap noMethods reqX (Some Map.empty))) ''F'' [vint 1]], []])
       = [Ok (RV reqX (VStruct reqX [VInt TInt 1])),
          Panic (RequiredMissing ''X.F required but not provided'')]
   \<and> fst (runCtor (TT reqX) reqX (structOf reqX) (requiredFields (fields (structOf reqX)) [])
        [[], [callSetter (snd (AddFuncMap noMethods reqX (Some Map.empty))) ''F'' [vint 1]]])
       = [Panic (RequiredMissing ''X.F required but not provided''),
          Ok (RV reqX (VStruct reqX [VInt TInt 1]))]"
proof -
  have ok: "fst (AddFuncMap noMethods reqX (Some Map.empty)) = Ok ()" by code_simp
  note t = constructor_calls_share_no_state [OF ok,
        of "[callSetter (snd (AddFuncMap noMethods reqX (Some Map.empty))) ''F'' [vint 1]]" "[]"]
  have r1: "fst (runCtor (TT reqX) reqX (structOf reqX) (requiredFields (fields (structOf reqX)) [])
        [[callSetter (snd (AddFuncMap noMethods reqX (Some Map.empty))) ''F'' [vint 1]], []])
       = [Ok (RV reqX (VStruct reqX [VInt TInt 1])),
          Panic (RequiredMissing ''X.F required but not provided'')]"
    unfolding t [THEN conjunct1] by code_simp
  have r2: "fst (runCtor (TT reqX) reqX (structOf reqX) (requiredFields (fields (structOf reqX)) [])
        [[], [callSetter (snd (AddFuncMap noMethods reqX (Some Map.empty))) ''F'' [vint 1]]])
       = [Panic (RequiredMissing ''X.F required but not provided''),
          Ok (RV reqX (VStruct reqX [VInt TInt 1]))]"
    unfolding t [THEN conjunct2] by code_simp
  show ?thesis using ok r1 r2 by blast
qed

section \<open>Field functions shared by several structs\<close>

text \<open>
  C1: when a name already holds a field function, \<^verbatim>\<open>setSavedApplyFn\<close> stores a function
  that, given a Value of the struct being registered, applies the new function and otherwise
  calls the one stored before. Hence, when two structs are registered into one FuncMap one
  after the other, the field function under the name of any field of either struct does to a
  Value of that struct what the function of its own field does. The two structs are
  arbitrary, so this holds in either order.
\<close>

theorem shared_field_name_dispatch:
  "(fnmap name = Some (Setter dispatch) \<longrightarrow>
      (\<exists>g. setSavedApplyFn fnmap name typ fn = Ok (fnmap(name \<mapsto> Setter g))
         \<and> (\<forall>args t c. t \<noteq> fieldsAreUnsetType \<longrightarrow>
               g args (RV t c) = (if t = typ then fn args (RV t c) else dispatch args (RV t c)))))
   \<and> (fst (AddFuncMap ms A base) = Ok () \<longrightarrow>
      fst (AddFuncMap ms B (snd (AddFuncMap ms A base))) = Ok () \<longrightarrow>
      distinct (map fname (fields (structOf A))) \<longrightarrow>
      distinct (map fname (fields (structOf B))) \<longrightarrow>
        (\<forall>j < length (fields (structOf A)).
           IsExported (fields (structOf A) ! j) \<longrightarrow> ftag (fields (structOf A) ! j) \<noteq> ''-'' \<longrightarrow>
           ownSetter ms (snd (AddFuncMap ms B (snd (AddFuncMap ms A base)))) (structOf A) j)
      \<and> (\<forall>j < length (fields (structOf B)).
           IsExported (fields (structOf B) ! j) \<longrightarrow> ftag (fields (structOf B) ! j) \<noteq> ''-'' \<longrightarrow>
           ownSetter ms (snd (AddFuncMap ms B (snd (AddFuncMap ms A base)))) (structOf B) j))"
proof (intro conjI impI allI)
  assume "fnmap name = Some (Setter dispatch)"
  from setSavedApplyFn_dispatch [of fnmap name dispatch "typ" fn, OF this]
  show "\<exists>g. setSavedApplyFn fnmap name typ fn = Ok (fnmap(name \<mapsto> Setter g))
         \<and> (\<forall>args t c. t \<noteq> fieldsAreUnsetType \<longrightarrow>
               g args (RV t c) = (if t = typ then fn args (RV t c) else dispatch args (RV t c)))"
    by blast
next
  fix j
  assume a: "fst (AddFuncMap ms A base) = Ok ()"
    and b: "fst (AddFuncMap ms B (snd (AddFuncMap ms A base))) = Ok ()"
    and d: "distinct (map fname (fields (structOf A)))"
    and j: "j < length (fields (structOf A))"
    and e: "IsExported (fields (structOf A) ! j)" "ftag (fields (structOf A) ! j) \<noteq> ''-''"
  have k: "Kind (structOf A) = KStruct"
    using AddFuncMap_Ok [OF a, of "structOf A"] by (auto simp: structOf_def)
  show "ownSetter ms (snd (AddFuncMap ms B (snd (AddFuncMap ms A base)))) (structOf A) j"
    using keeps_own [OF b k d j registered_own [OF a d j e]] .
next
  fix j
  assume b: "fst (AddFuncMap ms B (snd (AddFuncMap ms A base))) = Ok ()"
    and d: "distinct (map fname (fields (structOf B)))"
    and j: "j < length (fields (structOf B))"
    and e: "IsExported (fields (structOf B) ! j)" "ftag (fields (structOf B) ! j) \<noteq> ''-''"
  show "ownSetter ms (snd (AddFuncMap ms B (snd (AddFuncMap ms A base)))) (structOf B) j"
    using registered_own [OF b d j e] .
qed

theorem shared_field_name_dispatch_witness:
  "fst (AddFuncMap zMethods fieldX (Some Map.empty)) = Ok ()
   \<and> fst (AddFuncMap zMethods fieldW (snd (AddFuncMap zMethods fieldX (Some Map.empty)))) = Ok ()
   \<and> ownSetter zMethods (snd (AddFuncMap zMethods fieldW (snd (AddFuncMap zMethods fieldX (Some Map.empty)))))
        (structOf fieldX) 0
   \<and> ownSetter zMethods (snd (AddFuncMap zMethods fieldW (snd (AddFuncMap zMethods fieldX (Some Map.empty)))))
        (structOf fieldW) 0
   \<and> fst (AddFuncMap zMethods fieldW (Some Map.empty)) = Ok ()
   \<and> fst (AddFuncMap zMethods fieldX (snd (AddFuncMap zMethods fieldW (Some Map.empty)))) = Ok ()
   \<and> ownSetter zMethods (snd (AddFuncMap zMethods fieldX (snd (AddFuncMap zMethods fieldW (Some Map.empty)))))
        (structOf fieldX) 0
   \<and> ownSetter zMethods (snd (AddFuncMap zMethods fieldX (snd (AddFuncMap zMethods fieldW (Some Map.empty)))))
        (structOf fieldW) 0
   \<and> callCtor (snd (AddFuncMap zMethods fieldW (snd (AddFuncMap zMethods fieldX (Some Map.empty))))) ''X''
        [callSetter (snd (AddFuncMap zMethods fieldW (snd (AddFuncMap zMethods fieldX (Some Map.empty)))))
           ''F'' [vint 1]]
       = Ok (RV fieldX (VStruct fieldX [VInt TInt 1]))
   \<and> callCtor (snd (AddFuncMap zMethods fieldW (snd (AddFuncMap zMethods fieldX (Some Map.empty))))) ''W''
        [callSetter (snd (AddFuncMap zMethods fieldW (snd (AddFuncMap zMethods fieldX (Some Map.empty)))))
           ''F'' [vstr ''a'']]
       = Ok (RV fieldW (VStruct fieldW [VString zType ''za'']))
   \<and> callCtor (snd (AddFuncMap zMethods fieldX (snd (AddFuncMap zMethods fieldW (Some Map.empty))))) ''X''
        [callSetter (snd (AddFuncMap zMethods fieldX (snd (AddFuncMap zMethods fieldW (Some Map.empty)))))
           ''F'' [vint 1]]
       = Ok (RV fieldX (VStruct fieldX [VInt TInt 1]))
   \<and> callCtor (snd (AddFuncMap zMethods fieldX (snd (AddFuncMap zMethods fieldW (Some Map.empty))))) ''W''
        [callSetter (snd (AddFuncMap zMethods fieldX (snd (AddFuncMap zMethods fieldW (Some Map.empty)))))
           ''F'' [vstr ''a'']]
       = Ok (RV fieldW (VStruct fieldW [VString zType ''za'']))"
proof -
  have a1: "fst (AddFuncMap zMethods fieldX (Some Map.empty)) = Ok ()" by code_simp
  have b1: "fst (AddFuncMap zMethods fieldW (snd (AddFuncMap zMethods fieldX (Some Map.empty)))) = Ok ()"
    by code_simp
  have a2: "fst (AddFuncMap zMethods fieldW (Some Map.empty)) = Ok ()" by code_simp
  have b2: "fst (AddFuncMap zMethods fieldX (snd (AddFuncMap zMethods fieldW (Some Map.empty)))) = Ok ()"
    by code_simp
  have dx: "distinct (map fname (fields (structOf fieldX)))" by code_simp
  have dw: "distinct (map fname (fields (structOf fieldW)))" by code_simp
  have jx: "0 < length (fields (structOf fieldX))" "IsExported (fields (structOf fieldX) ! 0)"
    "ftag (fields (structOf fieldX) ! 0) \<noteq> ''-''" by code_simp+
  have jw: "0 < length (fields (structOf fieldW))" "IsExported (fields (structOf fieldW) ! 0)"
    "ftag (fields (structOf fieldW) ! 0) \<noteq> ''-''" by code_simp+
  note t1 = shared_field_name_dispatch [THEN conjunct2, rule_format, OF a1 b1 dx dw]
  note t2 = shared_field_name_dispatch [THEN conjunct2, rule_format, OF a2 b2 dw dx]
  have o1: "ownSetter zMethods (snd (AddFuncMap zMethods fieldW (snd (AddFuncMap zMethods fieldX (Some Map.empty)))))
        (structOf fieldX) 0"
    using t1 [THEN conjunct1, rule_format, OF jx] .
  have o2: "ownSetter zMethods (snd (AddFuncMap zMethods fieldW (snd (AddFuncMap zMethods fieldX (Some Map.empty)))))
        (structOf fieldW) 0"
    using t1 [THEN conjunct2, rule_format, OF jw] .
  have o3: "ownSetter zMethods (snd (AddFuncMap zMethods fieldX (snd (AddFuncMap zMethods fieldW (Some Map.empty)))))
        (structOf fieldX) 0"
    using t2 [THEN conjunct2, rule_format, OF jx] .
  have o4: "ownSetter zMethods (snd (AddFuncMap zMethods fieldX (snd (AddFuncMap zMethods fieldW (Some Map.empty)))))
        (structOf fieldW) 0"
    using t2 [THEN conjunct1, rule_format, OF jw] .
  have e1: "callCtor (snd (AddFuncMap zMethods fieldW (snd (AddFuncMap zMethods fieldX (Some Map.empty))))) ''X''
        [callSetter (snd (AddFuncMap zMethods fieldW (snd (AddFuncMap zMethods fieldX (Some Map.empty)))))
           ''F'' [vint 1]]
       = Ok (RV fieldX (VStruct fieldX [VInt TInt 1]))" by code_simp
  have e2: "callCtor (snd (AddFuncMap zMethods fieldW (snd (AddFuncMap zMethods fieldX (Some Map.empty))))) ''W''
        [callSetter (snd (AddFuncMap zMethods fieldW (snd (AddFuncMap zMethods fieldX (Some Map.empty)))))
           ''F'' [vstr ''a'']]
       = Ok (RV fieldW (VStruct fieldW [VString zType ''za'']))" by code_simp
  have e3: "callCtor (snd (AddFuncMap zMethods fieldX (snd (AddFuncMap zMethods fieldW (Some Map.empty))))) ''X''
        [callSetter (snd (AddFuncMap zMethods fieldX (snd (AddFuncMap zMethods fieldW (Some Map.empty)))))
           ''F'' [vint 1]]
       = Ok (RV fieldX (VStruct fieldX [VInt TInt 1]))" by code_simp
  have e4: "callCtor (snd (AddFuncMap zMethods fieldX (snd (AddFuncMap zMethods fieldW (Some Map.empty))))) ''W''
        [callSetter (snd (AddFuncMap zMethods fieldX (snd (AddFuncMap zMethods fieldW (Some Map.empty)))))
           ''F'' [vstr ''a'']]
       = Ok (RV fieldW (VStruct fieldW [VString zType ''za'']))" by code_simp
  show ?thesis using a1 b1 o1 o2 a2 b2 o3 o4 e1 e2 e3 e4 by blast
qed

section \<open>The setter of a map field\<close>

text \<open>
  C6: the field function of a map field without \<^verbatim>\<open>TStructSet\<close> is \<open>mapApply\<close>. Applied
  to an instance whose field \<open>i\<close> is a map, nil or not, it leaves a map that is not nil.
  With one argument that is a map whose key and element type are assignable to those of the
  field, the entries of the argument are added to the entries of the field. With arguments
  that form (key, element) pairs, the pairs are added; entries the field had are kept unless a
  new one has the same key. With an odd number of arguments that are not one such map, the
  call panics.
\<close>

theorem map_setter_merges:
  assumes k: "Kind rt = KStruct" and i: "i < length (fields rt)" and iv: "i < length vs"
    and ex: "IsExported (fields rt ! i)" and ft: "ftype (fields rt ! i) = ft" and km: "Kind ft = KMap"
    and old: "vs ! i = VMap ft old"
  shows "(ptrMethod ft = None \<longrightarrow>
           genSavedApplyFnForField ms (fields rt ! i) i name = Ok (mapApply i name))
    \<and> (length args = 1 \<longrightarrow> devirt (args ! 0) = Ok arg \<longrightarrow> rvType arg = Ok t \<longrightarrow> Kind t = KMap \<longrightarrow>
        AssignableTo (keyT t) (keyT ft) \<longrightarrow> AssignableTo (elemT t) (elemT ft) \<longrightarrow>
        storedEntries ft (MapRange arg) = Some ps \<longrightarrow>
          (\<exists>new. mapApply i name args (RV rt (VStruct s vs))
                    = Ok (RV rt (VStruct s (vs[i := VMap ft (Some new)])))
              \<and> map_of new = map_of (mapEntries (vs ! i)) ++ map_of (rev ps)))
    \<and> (devirtAll args = Ok dv \<longrightarrow> pairsOf dv = Some kes \<longrightarrow> storedEntries ft kes = Some ps \<longrightarrow>
          (\<exists>new. mapApply i name args (RV rt (VStruct s vs))
                    = Ok (RV rt (VStruct s (vs[i := VMap ft (Some new)])))
              \<and> map_of new = map_of (mapEntries (vs ! i)) ++ map_of (rev ps)))
    \<and> (odd (length args) \<longrightarrow>
        (length args = 1 \<longrightarrow> devirt (args ! 0) = Ok arg \<and> rvType arg = Ok t
            \<and> \<not> (Kind t = KMap \<and> AssignableTo (keyT t) (keyT ft) \<and> AssignableTo (elemT t) (elemT ft))) \<longrightarrow>
          mapApply i name args (RV rt (VStruct s vs)) = Panic (OddArgs name (length args)))"
proof (intro conjI impI)
  assume "ptrMethod ft = None"
  then show "genSavedApplyFnForField ms (fields rt ! i) i name = Ok (mapApply i name)"
    using ft km by (simp add: genSavedApplyFnForField_def)
next
  let ?l = "mapEntries (vs ! i)"
  assume a: "length args = 1" "devirt (args ! 0) = Ok arg" "rvType arg = Ok t" "Kind t = KMap"
    "AssignableTo (keyT t) (keyT ft)" "AssignableTo (elemT t) (elemT ft)"
    "storedEntries ft (MapRange arg) = Some ps"
  let ?new = "fold (\<lambda>(k, e). AList.update k e) ps ?l"
  have "mapApply i name args (RV rt (VStruct s vs)) = Ok (RV rt (VStruct s (vs[i := VMap ft (Some ?new)])))"
    unfolding mapApply_allocated [OF k i iv ex ft km old]
    using a setAll_stored [OF km a(7), of ft ?l] by simp
  then show "\<exists>new. mapApply i name args (RV rt (VStruct s vs))
                    = Ok (RV rt (VStruct s (vs[i := VMap ft (Some new)])))
              \<and> map_of new = map_of ?l ++ map_of (rev ps)"
    using map_of_fold_update by blast
next
  let ?l = "mapEntries (vs ! i)"
  assume a: "devirtAll args = Ok dv" "pairsOf dv = Some kes" "storedEntries ft kes = Some ps"
  let ?new = "fold (\<lambda>(k, e). AList.update k e) ps ?l"
  have len: "length dv = length args" using a(1)
    by (induction args arbitrary: dv) (auto simp: bind_eq_Ok)
  have ev: "even (length dv)" using a(2)
    by (induction dv arbitrary: kes rule: pairsOf.induct) auto
  have "mapApply i name args (RV rt (VStruct s vs)) = Ok (RV rt (VStruct s (vs[i := VMap ft (Some ?new)])))"
    unfolding mapApply_allocated [OF k i iv ex ft km old]
    using ev len setPairs_as_setAll [OF a(1,2)] setAll_stored [OF km a(3), of ft ?l]
    by (auto simp: )
  then show "\<exists>new. mapApply i name args (RV rt (VStruct s vs))
                    = Ok (RV rt (VStruct s (vs[i := VMap ft (Some new)])))
              \<and> map_of new = map_of ?l ++ map_of (rev ps)"
    using map_of_fold_update by blast
next
  assume o: "odd (length args)"
    and s: "length args = 1 \<longrightarrow> devirt (args ! 0) = Ok arg \<and> rvType arg = Ok t
            \<and> \<not> (Kind t = KMap \<and> AssignableTo (keyT t) (keyT ft) \<and> AssignableTo (elemT t) (elemT ft))"
  show "mapApply i name args (RV rt (VStruct s vs)) = Panic (OddArgs name (length args))"
    unfolding mapApply_allocated [OF k i iv ex ft km old]
    using o s by auto
qed

theorem map_setter_merges_witness:
  "Kind mapT = KStruct \<and> 0 < length (fields mapT) \<and> IsExported (fields mapT ! 0)
   \<and> ftype (fields mapT ! 0) = TMap TString TInt \<and> Kind (TMap TString TInt) = KMap
   \<and> ptrMethod (TMap TString TInt) = None
   \<and> genSavedApplyFnForField noMethods (fields mapT ! 0) 0 ''M'' = Ok (mapApply 0 ''M'')
   \<and> mapApply 0 ''M'' [] (RV mapT (VStruct mapT [VMap (TMap TString TInt) None]))
       = Ok (RV mapT (VStruct mapT [VMap (TMap TString TInt) (Some [])]))
   \<and> bind (mapApply 0 ''M'' [vstr ''a'', vint 1] (RV mapT (VStruct mapT [VMap (TMap TString TInt) None])))
        (mapApply 0 ''M'' [vstr ''b'', vint 2])
       = Ok (RV mapT (VStruct mapT [VMap (TMap TString TInt)
              (Some [(VString TString ''a'', VInt TInt 1), (VString TString ''b'', VInt TInt 2)])]))
   \<and> mapApply 0 ''M'' [RV (TMap TString TInt) (VMap (TMap TString TInt)
              (Some [(VString TString ''b'', VInt TInt 2), (VString TString ''c'', VInt TInt 3)]))]
        (RV mapT (VStruct mapT [VMap (TMap TString TInt) (Some [(VString TString ''a'', VInt TInt 1)])]))
       = Ok (RV mapT (VStruct mapT [VMap (TMap TString TInt)
              (Some [(VString TString ''a'', VInt TInt 1), (VString TString ''b'', VInt TInt 2),
                     (VString TString ''c'', VInt TInt 3)])]))
   \<and> mapApply 0 ''M'' [vstr ''a'', vint 1, vstr ''b'']
        (RV mapT (VStruct mapT [VMap (TMap TString TInt) None])) = Panic (OddArgs ''M'' 3)
   \<and> mapApply 0 ''M'' [vstr ''a'']
        (RV mapT (VStruct mapT [VMap (TMap TString TInt) None])) = Panic (OddArgs ''M'' 1)"
proof -
  let ?ft = "TMap TString TInt"
  have k: "Kind mapT = KStruct" and i: "0 < length (fields mapT)"
    and ex: "IsExported (fields mapT ! 0)" and ft: "ftype (fields mapT ! 0) = ?ft"
    and km: "Kind ?ft = KMap" and pm: "ptrMethod ?ft = None"
    by code_simp+
  have iv: "0 < length [VMap ?ft None]" by simp
  have o0: "[VMap ?ft None] ! 0 = VMap ?ft None" by simp
  have iv1: "0 < length [VMap ?ft (Some [(VString TString ''a'', VInt TInt 1)])]" by simp
  have o1: "[VMap ?ft (Some [(VString TString ''a'', VInt TInt 1)])] ! 0
            = VMap ?ft (Some [(VString TString ''a'', VInt TInt 1)])" by simp
  note t0 = map_setter_merges [OF k i iv ex ft km o0]
  have g: "genSavedApplyFnForField noMethods (fields mapT ! 0) 0 ''M'' = Ok (mapApply 0 ''M'')"
    using t0 [THEN conjunct1] pm by blast
  have odd3: "mapApply 0 ''M'' [vstr ''a'', vint 1, vstr ''b'']
        (RV mapT (VStruct mapT [VMap ?ft None])) = Panic (OddArgs ''M'' 3)"
    using map_setter_merges [where args = "[vstr ''a'', vint 1, vstr ''b'']" and name = "''M''"
          and s = mapT, OF k i iv ex ft km o0, THEN conjunct2, THEN conjunct2, THEN conjunct2]
    by simp
  have odd1: "mapApply 0 ''M'' [vstr ''a'']
        (RV mapT (VStruct mapT [VMap ?ft None])) = Panic (OddArgs ''M'' 1)"
    using map_setter_merges [where args = "[vstr ''a'']" and name = "''M''" and arg = "vstr ''a''"
          and t = TString and s = mapT, OF k i iv ex ft km o0,
          THEN conjunct2, THEN conjunct2, THEN conjunct2]
    by (simp add: vstr_def)
  have alloc: "mapApply 0 ''M'' [] (RV mapT (VStruct mapT [VMap ?ft None]))
       = Ok (RV mapT (VStruct mapT [VMap ?ft (Some [])]))"
    by code_simp
  have two: "bind (mapApply 0 ''M'' [vstr ''a'', vint 1] (RV mapT (VStruct mapT [VMap ?ft None])))
        (mapApply 0 ''M'' [vstr ''b'', vint 2])
       = Ok (RV mapT (VStruct mapT [VMap ?ft
              (Some [(VString TString ''a'', VInt TInt 1), (VString TString ''b'', VInt TInt 2)])]))"
    by code_simp
  have merge: "mapApply 0 ''M'' [RV ?ft (VMap ?ft
              (Some [(VString TString ''b'', VInt TInt 2), (VString TString ''c'', VInt TInt 3)]))]
        (RV mapT (VStruct mapT [VMap ?ft (Some [(VString TString ''a'', VInt TInt 1)])]))
       = Ok (RV mapT (VStruct mapT [VMap ?ft
              (Some [(VString TString ''a'', VInt TInt 1), (VString TString ''b'', VInt TInt 2),
                     (VString TString ''c'', VInt TInt 3)])]))"
    by code_simp
  show ?thesis using k i ex ft km pm g alloc two merge odd3 odd1 by blast
qed

section \<open>The setter of a slice field\<close>

text \<open>
  C7: the field function of a slice field without \<^verbatim>\<open>TStructSet\<close> is \<open>sliceApply\<close>.
  Two applications, one after the other, leave in the field the elements it had, followed by
  what the arguments of the first call add and then by what those of the second add; an
  argument of the type of the field adds its elements, not itself as one element. With
  \<^verbatim>\<open>(1, 2, 3)\<close> and then \<^verbatim>\<open>(4)\<close> the slice is \<^verbatim>\<open>[1, 2, 3, 4]\<close>.
\<close>

theorem slice_setter_appends:
  assumes k: "Kind rt = KStruct" and i: "i < length (fields rt)" and iv: "i < length vs"
    and ex: "IsExported (fields rt ! i)" and ft: "ftype (fields rt ! i) = ft" and ks: "Kind ft = KSlice"
    and old: "vs ! i = VSlice ft old"
    and d1: "devirtAll args1 = Ok dv1" and x1: "splicedArgs ft dv1 = Some xs1"
    and d2: "devirtAll args2 = Ok dv2" and x2: "splicedArgs ft dv2 = Some xs2"
  shows "(ptrMethod ft = None \<longrightarrow>
           genSavedApplyFnForField ms (fields rt ! i) i name = Ok (sliceApply i name))
    \<and> (\<exists>new. bind (sliceApply i name args1 (RV rt (VStruct s vs))) (sliceApply i name args2)
                  = Ok (RV rt (VStruct s (vs[i := VSlice ft new])))
           \<and> sliceElems (VSlice ft new) = sliceElems (vs ! i) @ xs1 @ xs2)
    \<and> splicedArgs ft [RV ft (VSlice ft ys)] = Some (sliceElems (VSlice ft ys))"
proof (intro conjI impI)
  assume "ptrMethod ft = None"
  then show "genSavedApplyFnForField ms (fields rt ! i) i name = Ok (sliceApply i name)"
    using ft ks by (simp add: genSavedApplyFnForField_def)
next
  from sliceApply_spliced [OF k i iv ex ft ks old d1 x1, of name s] obtain m where
    m: "sliceApply i name args1 (RV rt (VStruct s vs)) = Ok (RV rt (VStruct s (vs[i := VSlice ft m])))"
      "sliceElems (VSlice ft m) = sliceElems (vs ! i) @ xs1"
    by blast
  have iv': "i < length (vs[i := VSlice ft m])" using iv by simp
  have old': "vs[i := VSlice ft m] ! i = VSlice ft m" using iv by simp
  from sliceApply_spliced [OF k i iv' ex ft ks old' d2 x2, of name s] obtain n where
    n: "sliceApply i name args2 (RV rt (VStruct s (vs[i := VSlice ft m])))
          = Ok (RV rt (VStruct s (vs[i := VSlice ft n])))"
      "sliceElems (VSlice ft n) = sliceElems (VSlice ft m) @ xs2"
    using iv by auto
  show "\<exists>new. bind (sliceApply i name args1 (RV rt (VStruct s vs))) (sliceApply i name args2)
                  = Ok (RV rt (VStruct s (vs[i := VSlice ft new])))
           \<and> sliceElems (VSlice ft new) = sliceElems (vs ! i) @ xs1 @ xs2"
    using m n by (intro exI [of _ n]) simp
next
  show "splicedArgs ft [RV ft (VSlice ft ys)] = Some (sliceElems (VSlice ft ys))"
    by simp
qed

theorem slice_setter_appends_witness:
  "Kind sliceT = KStruct \<and> 0 < length (fields sliceT) \<and> IsExported (fields sliceT ! 0)
   \<and> ftype (fields sliceT ! 0) = TSlice TInt \<and> Kind (TSlice TInt) = KSlice
   \<and> devirtAll [vint 1, vint 2, vint 3] = Ok [vint 1, vint 2, vint 3]
   \<and> splicedArgs (TSlice TInt) [vint 1, vint 2, vint 3] = Some [VInt TInt 1, VInt TInt 2, VInt TInt 3]
   \<and> devirtAll [vint 4] = Ok [vint 4]
   \<and> splicedArgs (TSlice TInt) [vint 4] = Some [VInt TInt 4]
   \<and> (\<exists>new. bind (sliceApply 0 ''X'' [vint 1, vint 2, vint 3]
                    (RV sliceT (VStruct sliceT [VSlice (TSlice TInt) None])))
                 (sliceApply 0 ''X'' [vint 4])
               = Ok (RV sliceT (VStruct sliceT ([VSlice (TSlice TInt) None] [0 := VSlice (TSlice TInt) new])))
          \<and> sliceElems (VSlice (TSlice TInt) new)
              = [VInt TInt 1, VInt TInt 2, VInt TInt 3, VInt TInt 4])
   \<and> bind (sliceApply 0 ''X'' [vint 1, vint 2, vint 3]
              (RV sliceT (VStruct sliceT [VSlice (TSlice TInt) None])))
        (sliceApply 0 ''X'' [vint 4])
       = Ok (RV sliceT (VStruct sliceT
           [VSlice (TSlice TInt) (Some [VInt TInt 1, VInt TInt 2, VInt TInt 3, VInt TInt 4])]))
   \<and> sliceApply 0 ''X''
        [vint 0, RV (TSlice TInt) (VSlice (TSlice TInt) (Some [VInt TInt 1, VInt TInt 2])), vint 3]
        (RV sliceT (VStruct sliceT [VSlice (TSlice TInt) None]))
       = Ok (RV sliceT (VStruct sliceT
           [VSlice (TSlice TInt) (Some [VInt TInt 0, VInt TInt 1, VInt TInt 2, VInt TInt 3])]))"
proof -
  let ?ft = "TSlice TInt"
  have k: "Kind sliceT = KStruct" and i: "0 < length (fields sliceT)"
    and ex: "IsExported (fields sliceT ! 0)" and ft: "ftype (fields sliceT ! 0) = ?ft"
    and ks: "Kind ?ft = KSlice"
    by code_simp+
  have iv: "0 < length [VSlice ?ft None]" by simp
  have o0: "[VSlice ?ft None] ! 0 = VSlice ?ft None" by simp
  have d1: "devirtAll [vint 1, vint 2, vint 3] = Ok [vint 1, vint 2, vint 3]" by code_simp
  have x1: "splicedArgs ?ft [vint 1, vint 2, vint 3] = Some [VInt TInt 1, VInt TInt 2, VInt TInt 3]"
    by code_simp
  have d2: "devirtAll [vint 4] = Ok [vint 4]" by code_simp
  have x2: "splicedArgs ?ft [vint 4] = Some [VInt TInt 4]" by code_simp
  have t: "\<exists>new. bind (sliceApply 0 ''X'' [vint 1, vint 2, vint 3]
                    (RV sliceT (VStruct sliceT [VSlice ?ft None])))
                 (sliceApply 0 ''X'' [vint 4])
               = Ok (RV sliceT (VStruct sliceT ([VSlice ?ft None] [0 := VSlice ?ft new])))
          \<and> sliceElems (VSlice ?ft new) = [VInt TInt 1, VInt TInt 2, VInt TInt 3, VInt TInt 4]"
    using slice_setter_appends [OF k i iv ex ft ks o0 d1 x1 d2 x2, of _ "''X''" sliceT,
        THEN conjunct2, THEN conjunct1]
    by simp
  have e1: "bind (sliceApply 0 ''X'' [vint 1, vint 2, vint 3]
              (RV sliceT (VStruct sliceT [VSlice ?ft None])))
        (sliceApply 0 ''X'' [vint 4])
       = Ok (RV sliceT (VStruct sliceT
           [VSlice ?ft (Some [VInt TInt 1, VInt TInt 2, VInt TInt 3, VInt TInt 4])]))"
    by code_simp
  have e2: "sliceApply 0 ''X''
        [vint 0, RV ?ft (VSlice ?ft (Some [VInt TInt 1, VInt TInt 2])), vint 3]
        (RV sliceT (VStruct sliceT [VSlice ?ft None]))
       = Ok (RV sliceT (VStruct sliceT
           [VSlice ?ft (Some [VInt TInt 0, VInt TInt 1, VInt TInt 2, VInt TInt 3])]))"
    by code_simp
  show ?thesis using k i ex ft ks d1 x1 d2 x2 t e1 e2 by blast
qed

end
